theory Spec2Isabelle
  imports Complex_Main "HOL-Library.Product_Lexorder"
begin

section \<open>Ground station candidate set: data model\<close>

text \<open>
  A shallow embedding of \<^verbatim>\<open>tools/build_candidate_set.py\<close>.

  Python floats are read as real numbers: \<^verbatim>\<open>math.sin\<close>, \<^verbatim>\<open>math.cos\<close>,
  \<^verbatim>\<open>math.sqrt\<close> and \<^verbatim>\<open>math.atan2\<close> are the exact functions, and rounding, NaN and
  infinities are outside the model. One effect of rounding is not: over the reals the
  local \<^verbatim>\<open>a\<close> of \<^verbatim>\<open>haversine_km\<close> is at most \<open>1\<close>, while in double precision it can
  come out above \<open>1\<close> for points that are nearly antipodal, such as \<open>(8, 0)\<close> and
  \<open>(-8, 180)\<close>, and \<^verbatim>\<open>math.sqrt(1 - a)\<close> then raises \<^verbatim>\<open>ValueError\<close>. What is claimed
  of \<^verbatim>\<open>haversine_km\<close> and \<^verbatim>\<open>deduplicate_candidates\<close> is therefore claimed of the calls
  that return.

  Python's unbounded integers are \<open>int\<close>. A field typed \<^verbatim>\<open>Optional[...]\<close> is an
  \<open>option\<close>; \<^verbatim>\<open>id\<close> (here \<open>cid\<close>) and \<^verbatim>\<open>name\<close> are
  optional too, since the loaders pass a JSON \<^verbatim>\<open>null\<close> through. The elements of
  \<^verbatim>\<open>cables\<close> are read as strings.
\<close>

datatype error = ValueError

record Candidate =
  cid :: "string option"
  name :: "string option"
  latitude :: real
  longitude :: real
  zone :: string
  source :: string
  tier :: "int option"
  demand_gbps :: "real option"
  weather_score :: "real option"
  cable_count :: "int option"
  cables :: "string list option"
  merged_sources :: "string list option"

text \<open>
  Candidates are mutable objects that the deduplication changes in place, so a
  candidate list is a list of references into a store; a reference may stand in a list
  more than once. The two list-valued fields are values of their object: the list in
  \<^verbatim>\<open>cables\<close> is never changed in place, and the list in \<^verbatim>\<open>merged_sources\<close> is created by
  the deduplication for one representative, so that no two objects share one.
\<close>

type_synonym ref = nat

type_synonym heap = "ref \<Rightarrow> Candidate"

section \<open>Distance\<close>

definition radians :: "real \<Rightarrow> real" where
  "radians x = x * (pi / 180)"

text \<open>\<^verbatim>\<open>math.sqrt\<close> raises \<^verbatim>\<open>ValueError\<close> on a negative argument.\<close>

definition py_sqrt :: "real \<Rightarrow> error + real" where
  "py_sqrt x = (if x < 0 then Inl ValueError else Inr (sqrt x))"

text \<open>\<^verbatim>\<open>math.atan2(y, x)\<close>: the angle of the point \<open>(x, y)\<close>, in \<open>(-pi, pi]\<close>.\<close>

definition atan2 :: "real \<Rightarrow> real \<Rightarrow> real" where
  "atan2 y x =
     (if 0 < x then arctan (y / x)
      else if x < 0 \<and> 0 \<le> y then arctan (y / x) + pi
      else if x < 0 \<and> y < 0 then arctan (y / x) - pi
      else if 0 < y then pi / 2
      else if y < 0 then - (pi / 2)
      else 0)"

text \<open>The local \<^verbatim>\<open>a\<close> of \<^verbatim>\<open>haversine_km\<close>.\<close>

definition hav_a :: "real \<Rightarrow> real \<Rightarrow> real \<Rightarrow> real \<Rightarrow> real" where
  "hav_a lat1 lon1 lat2 lon2 =
     (let lat1_rad = radians lat1;
          lat2_rad = radians lat2;
          dlat = radians (lat2 - lat1);
          dlon = radians (lon2 - lon1)
      in (sin (dlat / 2))\<^sup>2 + cos lat1_rad * cos lat2_rad * (sin (dlon / 2))\<^sup>2)"

definition haversine_km :: "real \<Rightarrow> real \<Rightarrow> real \<Rightarrow> real \<Rightarrow> error + real" where
  "haversine_km lat1 lon1 lat2 lon2 =
     (let R = 6371;
          a = hav_a lat1 lon1 lat2 lon2
      in case py_sqrt a of
           Inl e \<Rightarrow> Inl e
         | Inr sa \<Rightarrow>
             (case py_sqrt (1 - a) of
                Inl e \<Rightarrow> Inl e
              | Inr sb \<Rightarrow> let c = 2 * atan2 sa sb in Inr (R * c)))"

text \<open>
  The value \<^verbatim>\<open>haversine_km\<close> returns when neither square root raises. Over the reals
  that is every call (lemma \<open>haversine_km_returns\<close>), which the proofs use; the
  statements about the code suppose the return.
\<close>

definition great_circle :: "real \<Rightarrow> real \<Rightarrow> real \<Rightarrow> real \<Rightarrow> real" where
  "great_circle lat1 lon1 lat2 lon2 =
     6371 * (2 * atan2 (sqrt (hav_a lat1 lon1 lat2 lon2)) (sqrt (1 - hav_a lat1 lon1 lat2 lon2)))"

section \<open>Zones\<close>

record zone_def =
  lon_min :: real
  lon_max :: real
  quota :: nat

text \<open>The dictionary \<^verbatim>\<open>ZONES\<close>, in its insertion order (the order Python iterates it in).\<close>

definition ZONES :: "(string \<times> zone_def) list" where
  "ZONES =
     [(''AMERICAS'', \<lparr>lon_min = -180, lon_max = -30, quota = 72\<rparr>),
      (''EMEA'', \<lparr>lon_min = -30, lon_max = 60, quota = 85\<rparr>),
      (''APAC'', \<lparr>lon_min = 60, lon_max = 180, quota = 90\<rparr>)]"

fun assign_zone_loop :: "(string \<times> zone_def) list \<Rightarrow> real \<Rightarrow> string" where
  "assign_zone_loop [] lon = ''APAC''"
| "assign_zone_loop ((zone_name, zd) # zs) lon =
     (if lon_min zd \<le> lon \<and> lon < lon_max zd then zone_name else assign_zone_loop zs lon)"

definition assign_zone :: "real \<Rightarrow> string" where
  "assign_zone lon = assign_zone_loop ZONES lon"

definition in_zone :: "real \<Rightarrow> string \<times> zone_def \<Rightarrow> bool" where
  "in_zone lon z = (lon_min (snd z) \<le> lon \<and> lon < lon_max (snd z))"

section \<open>Deduplication\<close>

text \<open>Python truthiness of an optional number: \<^verbatim>\<open>None\<close> and zero are false.\<close>

definition truthy_int :: "int option \<Rightarrow> bool" where
  "truthy_int x = (case x of None \<Rightarrow> False | Some n \<Rightarrow> n \<noteq> 0)"

definition truthy_real :: "real option \<Rightarrow> bool" where
  "truthy_real x = (case x of None \<Rightarrow> False | Some w \<Rightarrow> w \<noteq> 0)"

text \<open>\<^verbatim>\<open>x or 0\<close>: \<^verbatim>\<open>x\<close> when it is truthy and \<open>0\<close> otherwise.\<close>

definition or_zero :: "int option \<Rightarrow> int" where
  "or_zero x = (if truthy_int x then (case x of Some n \<Rightarrow> n | None \<Rightarrow> 0) else 0)"

text \<open>The sort key \<^verbatim>\<open>importance\<close>: a Python tuple, compared lexicographically.\<close>

definition importance :: "Candidate \<Rightarrow> nat \<times> int" where
  "importance c =
     (let source_priority = (if source c = ''ground_node'' then 0 else 1);
          cable_priority = - or_zero (cable_count c)
      in (source_priority, cable_priority))"

text \<open>
  The body of \<^verbatim>\<open>if dist < threshold_km:\<close>: the new value of \<^verbatim>\<open>existing\<close>, as a function
  of the values of \<^verbatim>\<open>existing\<close> and \<^verbatim>\<open>candidate\<close> before it. The body reads every field
  of \<^verbatim>\<open>candidate\<close> before it assigns that field of \<^verbatim>\<open>existing\<close>, so this is what it
  computes also when the two are one object.
\<close>

definition merge_into :: "Candidate \<Rightarrow> Candidate \<Rightarrow> Candidate" where
  "merge_into existing candidate =
     (let e1 = (if merged_sources existing = None
                then existing\<lparr>merged_sources := Some [source existing]\<rparr>
                else existing);
          e2 = e1\<lparr>merged_sources :=
                    map_option (\<lambda>ms. ms @ [source candidate]) (merged_sources e1)\<rparr>;
          e3 = (if cable_count e2 = None \<and> truthy_int (cable_count candidate)
                then e2\<lparr>cable_count := cable_count candidate, cables := cables candidate\<rparr>
                else if truthy_int (cable_count e2) \<and> truthy_int (cable_count candidate)
                then (case (cable_count e2, cable_count candidate) of
                        (Some n, Some k) \<Rightarrow> e2\<lparr>cable_count := Some (max n k)\<rparr>
                      | _ \<Rightarrow> e2)
                else e2);
          e4 = (if weather_score e3 = None \<and> truthy_real (weather_score candidate)
                then e3\<lparr>weather_score := weather_score candidate\<rparr>
                else e3)
      in e4)"

text \<open>
  The call \<^verbatim>\<open>haversine_km(candidate.latitude, candidate.longitude, existing.latitude,
  existing.longitude)\<close> on two objects of the store.
\<close>

definition distance_between :: "heap \<Rightarrow> ref \<Rightarrow> ref \<Rightarrow> error + real" where
  "distance_between h candidate existing =
     haversine_km (latitude (h candidate)) (longitude (h candidate))
                  (latitude (h existing)) (longitude (h existing))"

text \<open>
  The inner loop \<^verbatim>\<open>for existing in unique\<close>. The result is \<open>None\<close> when
  \<^verbatim>\<open>found_match\<close> stays false, and otherwise the representative the loop broke at
  together with the store after the merge.
\<close>

fun find_match :: "heap \<Rightarrow> real \<Rightarrow> ref \<Rightarrow> ref list \<Rightarrow> error + (ref \<times> heap) option" where
  "find_match h threshold_km candidate [] = Inr None"
| "find_match h threshold_km candidate (existing # rest) =
     (case distance_between h candidate existing of
        Inl e \<Rightarrow> Inl e
      | Inr d \<Rightarrow>
          if d < threshold_km
          then Inr (Some (existing, h(existing := merge_into (h existing) (h candidate))))
          else find_match h threshold_km candidate rest)"

text \<open>
  The outer loop \<^verbatim>\<open>for candidate in sorted_candidates\<close>, over the state \<^verbatim>\<open>unique\<close>,
  the store and \<^verbatim>\<open>merged_count\<close>. The last component, \<open>absorbed\<close>, is ghost state
  the source does not have: for each representative, the candidates merged into it, in
  merge order. Nothing else depends on it.
\<close>

type_synonym dedup_state = "ref list \<times> heap \<times> nat \<times> (ref \<Rightarrow> ref list)"

fun dedup_loop :: "real \<Rightarrow> ref list \<Rightarrow> dedup_state \<Rightarrow> error + dedup_state" where
  "dedup_loop threshold_km [] st = Inr st"
| "dedup_loop threshold_km (candidate # rest) (unique, h, merged_count, absorbed) =
     (case find_match h threshold_km candidate unique of
        Inl e \<Rightarrow> Inl e
      | Inr (Some (existing, h')) \<Rightarrow>
          dedup_loop threshold_km rest
            (unique, h', merged_count + 1,
             absorbed(existing := absorbed existing @ [candidate]))
      | Inr None \<Rightarrow>
          dedup_loop threshold_km rest (unique @ [candidate], h, merged_count, absorbed))"

text \<open>\<^verbatim>\<open>sorted\<close> is a stable sort, as \<open>sort_key\<close> is.\<close>

definition dedup_trace :: "heap \<Rightarrow> ref list \<Rightarrow> real \<Rightarrow> error + dedup_state" where
  "dedup_trace h candidates threshold_km =
     (let sorted_candidates = sort_key (\<lambda>r. importance (h r)) candidates
      in dedup_loop threshold_km sorted_candidates ([], h, 0, \<lambda>r. []))"

text \<open>
  \<^verbatim>\<open>deduplicate_candidates\<close> returns \<^verbatim>\<open>unique\<close>; the model returns with it the store
  the call leaves behind and the \<^verbatim>\<open>merged_count\<close> it prints.
\<close>

definition deduplicate_candidates ::
  "heap \<Rightarrow> ref list \<Rightarrow> real \<Rightarrow> error + (ref list \<times> heap \<times> nat)" where
  "deduplicate_candidates h candidates threshold_km =
     (case dedup_trace h candidates threshold_km of
        Inl e \<Rightarrow> Inl e
      | Inr (unique, h', merged_count, absorbed) \<Rightarrow> Inr (unique, h', merged_count))"

text \<open>Whether \<^verbatim>\<open>dist < threshold_km\<close> holds for a candidate and a representative.\<close>

definition near :: "heap \<Rightarrow> real \<Rightarrow> ref \<Rightarrow> ref \<Rightarrow> bool" where
  "near h t c e =
     (great_circle (latitude (h c)) (longitude (h c)) (latitude (h e)) (longitude (h e)) < t)"

text \<open>The fields of a candidate that the deduplication never assigns.\<close>

definition same_identity :: "Candidate \<Rightarrow> Candidate \<Rightarrow> bool" where
  "same_identity c' c =
     (cid c' = cid c \<and> name c' = name c \<and> latitude c' = latitude c \<and>
      longitude c' = longitude c \<and> zone c' = zone c \<and> source c' = source c \<and>
      tier c' = tier c \<and> demand_gbps c' = demand_gbps c)"

section \<open>Loading the two sources\<close>

text \<open>
  A key of a JSON record as the loaders see it: absent, present with \<^verbatim>\<open>null\<close>, or
  present with a value of the field's type. Reading the files is outside the model:
  the loaders take the parsed list of records.
\<close>

datatype 'a jfield = Absent | Null | Val 'a

text \<open>\<^verbatim>\<open>d.get(key)\<close> and \<^verbatim>\<open>d.get(key, default)\<close>.\<close>

definition get :: "'a jfield \<Rightarrow> 'a option" where
  "get f = (case f of Absent \<Rightarrow> None | Null \<Rightarrow> None | Val v \<Rightarrow> Some v)"

definition get_default :: "'a jfield \<Rightarrow> 'a \<Rightarrow> 'a option" where
  "get_default f d = (case f of Absent \<Rightarrow> Some d | Null \<Rightarrow> None | Val v \<Rightarrow> Some v)"

record ground_node_json =
  gn_id :: "string jfield"
  gn_name :: "string jfield"
  gn_latitude :: "real jfield"
  gn_longitude :: "real jfield"
  gn_tier :: "int jfield"
  gn_demand_gbps :: "real jfield"
  gn_weather_score :: "real jfield"

record landing_json =
  lp_id :: "string jfield"
  lp_name :: "string jfield"
  lp_latitude :: "real jfield"
  lp_longitude :: "real jfield"
  lp_cable_count :: "int jfield"
  lp_cables :: "string list jfield"

text \<open>The decimal digits of a number, as an f-string prints \<^verbatim>\<open>len(candidates)\<close>.\<close>

fun str_nat :: "nat \<Rightarrow> string" where
  "str_nat n =
     (if n < 10 then [''0123456789'' ! n]
      else str_nat (n div 10) @ [''0123456789'' ! (n mod 10)])"

declare str_nat.simps [simp del]

text \<open>The two calls of the constructor \<^verbatim>\<open>Candidate(...)\<close> and the loops around them.\<close>

definition ground_node_candidate ::
  "ground_node_json \<Rightarrow> nat \<Rightarrow> real \<Rightarrow> real \<Rightarrow> Candidate" where
  "ground_node_candidate node n lat lon =
     \<lparr>cid = get_default (gn_id node) (''gn-'' @ str_nat n),
      name = get_default (gn_name node) ''Unknown'',
      latitude = lat,
      longitude = lon,
      zone = assign_zone lon,
      source = ''ground_node'',
      tier = get (gn_tier node),
      demand_gbps = get (gn_demand_gbps node),
      weather_score = get (gn_weather_score node),
      cable_count = None,
      cables = None,
      merged_sources = None\<rparr>"

fun load_ground_nodes_loop :: "ground_node_json list \<Rightarrow> Candidate list \<Rightarrow> Candidate list" where
  "load_ground_nodes_loop [] candidates = candidates"
| "load_ground_nodes_loop (node # nodes) candidates =
     (case get (gn_latitude node) of
        None \<Rightarrow> load_ground_nodes_loop nodes candidates
      | Some lat \<Rightarrow>
          (case get (gn_longitude node) of
             None \<Rightarrow> load_ground_nodes_loop nodes candidates
           | Some lon \<Rightarrow>
               load_ground_nodes_loop nodes
                 (candidates @ [ground_node_candidate node (length candidates) lat lon])))"

definition load_ground_nodes :: "ground_node_json list \<Rightarrow> Candidate list" where
  "load_ground_nodes nodes = load_ground_nodes_loop nodes []"

definition landing_candidate ::
  "landing_json \<Rightarrow> nat \<Rightarrow> real \<Rightarrow> real \<Rightarrow> Candidate" where
  "landing_candidate point n lat lon =
     \<lparr>cid = get_default (lp_id point) (''cl-'' @ str_nat n),
      name = get_default (lp_name point) ''Unknown'',
      latitude = lat,
      longitude = lon,
      zone = assign_zone lon,
      source = ''cable_landing'',
      tier = None,
      demand_gbps = None,
      weather_score = None,
      cable_count = get_default (lp_cable_count point) 0,
      cables = get_default (lp_cables point) [],
      merged_sources = None\<rparr>"

fun load_cable_landings_loop :: "landing_json list \<Rightarrow> Candidate list \<Rightarrow> Candidate list" where
  "load_cable_landings_loop [] candidates = candidates"
| "load_cable_landings_loop (point # points) candidates =
     (case get (lp_latitude point) of
        None \<Rightarrow> load_cable_landings_loop points candidates
      | Some lat \<Rightarrow>
          (case get (lp_longitude point) of
             None \<Rightarrow> load_cable_landings_loop points candidates
           | Some lon \<Rightarrow>
               load_cable_landings_loop points
                 (candidates @ [landing_candidate point (length candidates) lat lon])))"

definition load_cable_landings :: "landing_json list \<Rightarrow> Candidate list" where
  "load_cable_landings points = load_cable_landings_loop points []"

text \<open>A landing point that passes \<^verbatim>\<open>if lat is None or lon is None: continue\<close>.\<close>

definition has_coordinates :: "landing_json \<Rightarrow> bool" where
  "has_coordinates point = (get (lp_latitude point) \<noteq> None \<and> get (lp_longitude point) \<noteq> None)"

text \<open>Records that give coordinates and nothing else.\<close>

definition bare_landing :: landing_json where
  "bare_landing =
     \<lparr>lp_id = Absent, lp_name = Absent, lp_latitude = Val 1, lp_longitude = Val 2,
      lp_cable_count = Absent, lp_cables = Absent\<rparr>"

definition bare_node :: ground_node_json where
  "bare_node =
     \<lparr>gn_id = Absent, gn_name = Absent, gn_latitude = Val 1, gn_longitude = Val 2,
      gn_tier = Absent, gn_demand_gbps = Absent, gn_weather_score = Absent\<rparr>"

section \<open>Predicates and examples used in the statements\<close>

text \<open>The distance the code computes for two objects is below, or at least, a threshold.\<close>

definition closer :: "heap \<Rightarrow> real \<Rightarrow> ref \<Rightarrow> ref \<Rightarrow> bool" where
  "closer h t a b = (case distance_between h a b of Inl e \<Rightarrow> False | Inr d \<Rightarrow> d < t)"

definition apart :: "heap \<Rightarrow> real \<Rightarrow> ref \<Rightarrow> ref \<Rightarrow> bool" where
  "apart h t a b = (case distance_between h a b of Inl e \<Rightarrow> False | Inr d \<Rightarrow> t \<le> d)"

text \<open>
  \<open>x\<close> is the largest cable count among the objects \<open>rs\<close>: one of them has it and
  none has more.
\<close>

definition is_max_count :: "heap \<Rightarrow> ref list \<Rightarrow> int \<Rightarrow> bool" where
  "is_max_count h rs x =
     ((\<exists>r\<in>set rs. cable_count (h r) = Some x) \<and>
      (\<forall>r\<in>set rs. case cable_count (h r) of None \<Rightarrow> True | Some k \<Rightarrow> k \<le> x))"

text \<open>
  Cable counts as the pipeline has them: never negative, and never \<open>0\<close> on a ground
  node (the loader creates a ground node without a cable count).
\<close>

definition counts_as_loaded :: "heap \<Rightarrow> ref list \<Rightarrow> bool" where
  "counts_as_loaded h cs =
     (\<forall>r\<in>set cs. case cable_count (h r) of
                    None \<Rightarrow> True
                  | Some k \<Rightarrow> 0 \<le> k \<and> (k = 0 \<longrightarrow> source (h r) \<noteq> ''ground_node''))"


text \<open>An object with every optional field absent.\<close>

definition blank :: Candidate where
  "blank = \<lparr>cid = None, name = None, latitude = 0, longitude = 0, zone = ''EMEA'',
            source = ''cable_landing'', tier = None, demand_gbps = None, weather_score = None,
            cable_count = None, cables = None, merged_sources = None\<rparr>"

text \<open>
  The scenario of the specification: a ground node at \<open>(40.0, -74.0)\<close> without a
  cable count (object 20) and a cable landing at \<open>(40.1, -74.05)\<close> with 5 cables
  (object 21).
\<close>

definition scenario_heap :: heap where
  "scenario_heap =
     (\<lambda>r. blank)
       (20 := blank\<lparr>latitude := 40, longitude := -74, zone := ''AMERICAS'',
                    source := ''ground_node''\<rparr>,
        21 := blank\<lparr>latitude := 40.1, longitude := -74.05, zone := ''AMERICAS'',
                    cable_count := Some 5, cables := Some []\<rparr>)"

text \<open>
  A chain on the equator: a ground node \<open>B\<close> at longitude \<open>0\<close> (object 10) and two
  cable landings, \<open>A\<close> at longitude \<open>90\<close> (object 11) and \<open>C\<close> at longitude \<open>-90\<close>
  (object 12).
\<close>

definition chain_heap :: heap where
  "chain_heap =
     (\<lambda>r. blank)
       (10 := blank\<lparr>cid := Some ''B'', source := ''ground_node''\<rparr>,
        11 := blank\<lparr>cid := Some ''A'', longitude := 90, zone := ''APAC''\<rparr>,
        12 := blank\<lparr>cid := Some ''C'', longitude := -90, zone := ''AMERICAS''\<rparr>)"

text \<open>
  At one place, a ground node that carries the cable count \<open>0\<close> (object 30) and a
  cable landing with 5 cables (object 31).
\<close>

definition zero_count_heap :: heap where
  "zero_count_heap =
     (\<lambda>r. blank)
       (30 := blank\<lparr>source := ''ground_node'', cable_count := Some 0\<rparr>,
        31 := blank\<lparr>cable_count := Some 5, cables := Some []\<rparr>)"

text \<open>
  At one place, three ground nodes: without a weather score (object 40), with the
  score \<open>0.0\<close> (object 41) and with the score \<open>0.5\<close> (object 42).
\<close>

definition zero_score_heap :: heap where
  "zero_score_heap =
     (\<lambda>r. blank)
       (40 := blank\<lparr>source := ''ground_node''\<rparr>,
        41 := blank\<lparr>source := ''ground_node'', weather_score := Some 0\<rparr>,
        42 := blank\<lparr>source := ''ground_node'', weather_score := Some (1 / 2)\<rparr>)"

section \<open>A notion used in the proofs\<close>

text \<open>
  What merges can have made of an object \<open>a\<close>: the source is the same, a cable count
  or weather score that is absent now was absent before, and a non-zero cable count has
  not become smaller or zero.
\<close>

definition grown :: "Candidate \<Rightarrow> Candidate \<Rightarrow> bool" where
  "grown a F =
     (source F = source a \<and>
      (cable_count F = None \<longrightarrow> cable_count a = None) \<and>
      (\<forall>k. cable_count a = Some k \<longrightarrow> k \<noteq> 0 \<longrightarrow>
           (\<exists>n. cable_count F = Some n \<and> k \<le> n \<and> n \<noteq> 0)) \<and>
      (weather_score F = None \<longrightarrow> weather_score a = None))"

section \<open>Properties of the distance\<close>

lemma radians_diff: "radians (x - y) = radians x - radians y"
  by (simp add: radians_def left_diff_distrib)

lemma sin2_le1: "(sin (x::real))\<^sup>2 \<le> 1"
  using sin_cos_squared_add [of x] zero_le_power2 [of "cos x"] by linarith

lemma cos2_le1: "(cos (x::real))\<^sup>2 \<le> 1"
  using sin_cos_squared_add [of x] zero_le_power2 [of "sin x"] by linarith

lemma cos_mult_as_squares:
  "cos (y - x) * cos (y + x) = (cos y)\<^sup>2 - (sin x)\<^sup>2" for x y :: real
proof -
  have "cos (y - x) * cos (y + x) =
        (cos y * cos x + sin y * sin x) * (cos y * cos x - sin y * sin x)"
    by (simp only: cos_add cos_diff)
  also have "\<dots> = (cos y)\<^sup>2 * (cos x)\<^sup>2 - (sin y)\<^sup>2 * (sin x)\<^sup>2"
    by (simp add: power2_eq_square algebra_simps)
  also have "\<dots> = (cos y)\<^sup>2 * (1 - (sin x)\<^sup>2) - (1 - (cos y)\<^sup>2) * (sin x)\<^sup>2"
    by (simp only: cos_squared_eq [of x] sin_squared_eq [of y])
  also have "\<dots> = (cos y)\<^sup>2 - (sin x)\<^sup>2"
    by (simp add: algebra_simps)
  finally show ?thesis .
qed

lemma hav_a_convex:
  "hav_a lat1 lon1 lat2 lon2 =
     (1 - (sin (radians (lon2 - lon1) / 2))\<^sup>2) * (sin ((radians lat2 - radians lat1) / 2))\<^sup>2
     + (sin (radians (lon2 - lon1) / 2))\<^sup>2 * (cos ((radians lat1 + radians lat2) / 2))\<^sup>2"
proof -
  define x where "x = (radians lat2 - radians lat1) / 2"
  define y where "y = (radians lat1 + radians lat2) / 2"
  define s where "s = (sin (radians (lon2 - lon1) / 2))\<^sup>2"
  have l1: "radians lat1 = y - x" and l2: "radians lat2 = y + x"
    by (simp_all add: x_def y_def field_simps)
  have cc: "cos (radians lat1) * cos (radians lat2) = (cos y)\<^sup>2 - (sin x)\<^sup>2"
    unfolding l1 l2 by (rule cos_mult_as_squares)
  have "hav_a lat1 lon1 lat2 lon2 = (sin x)\<^sup>2 + (cos (radians lat1) * cos (radians lat2)) * s"
    by (simp add: hav_a_def Let_def radians_diff x_def s_def)
  also have "\<dots> = (1 - s) * (sin x)\<^sup>2 + s * (cos y)\<^sup>2"
    unfolding cc by (simp add: algebra_simps)
  finally show ?thesis
    unfolding x_def y_def s_def .
qed

lemma hav_a_ge0: "0 \<le> hav_a lat1 lon1 lat2 lon2"
  unfolding hav_a_convex
  by (intro add_nonneg_nonneg mult_nonneg_nonneg) (simp_all add: sin2_le1)

lemma hav_a_le1: "hav_a lat1 lon1 lat2 lon2 \<le> 1"
proof -
  define s where "s = (sin (radians (lon2 - lon1) / 2))\<^sup>2"
  define p where "p = (sin ((radians lat2 - radians lat1) / 2))\<^sup>2"
  define q where "q = (cos ((radians lat1 + radians lat2) / 2))\<^sup>2"
  have s: "0 \<le> s" "s \<le> 1" and p: "p \<le> 1" and q: "q \<le> 1"
    by (simp_all add: s_def p_def q_def sin2_le1 cos2_le1)
  have "(1 - s) * p \<le> (1 - s) * 1" using s p by (intro mult_left_mono) simp_all
  moreover have "s * q \<le> s * 1" using s q by (intro mult_left_mono) simp_all
  ultimately have "(1 - s) * p + s * q \<le> 1" by simp
  then show ?thesis unfolding hav_a_convex s_def p_def q_def .
qed

lemma haversine_km_returns:
  "haversine_km lat1 lon1 lat2 lon2 = Inr (great_circle lat1 lon1 lat2 lon2)"
  using hav_a_ge0 [of lat1 lon1 lat2 lon2] hav_a_le1 [of lat1 lon1 lat2 lon2]
  by (simp add: haversine_km_def great_circle_def py_sqrt_def Let_def)



lemma hav_a_sym: "hav_a lat1 lon1 lat2 lon2 = hav_a lat2 lon2 lat1 lon1"
proof -
  have "radians (lat1 - lat2) / 2 = - (radians (lat2 - lat1) / 2)"
       "radians (lon1 - lon2) / 2 = - (radians (lon2 - lon1) / 2)"
    by (simp_all add: radians_diff diff_divide_distrib)
  then show ?thesis
    by (simp add: hav_a_def Let_def mult.commute)
qed

lemma great_circle_sym: "great_circle lat1 lon1 lat2 lon2 = great_circle lat2 lon2 lat1 lon1"
  by (simp add: great_circle_def hav_a_sym [of lat1 lon1 lat2 lon2])

lemma hav_a_same: "hav_a lat lon lat lon = 0"
  by (simp add: hav_a_def radians_def)

lemma great_circle_same: "great_circle lat lon lat lon = 0"
  by (simp add: great_circle_def hav_a_same atan2_def)

lemma arctan_le_self:
  assumes "0 \<le> x"
  shows "arctan x \<le> x"
proof -
  have "(\<lambda>z. z - arctan z) 0 \<le> (\<lambda>z. z - arctan z) x"
  proof (rule DERIV_nonneg_imp_nondecreasing [OF assms])
    fix z :: real
    have "DERIV (\<lambda>z. z - arctan z) z :> 1 - inverse (1 + z\<^sup>2)"
      by (auto intro!: derivative_eq_intros)
    moreover have "inverse (1 + z\<^sup>2) \<le> 1"
      by (simp add: inverse_le_1_iff)
    ultimately show "\<exists>y. DERIV (\<lambda>z. z - arctan z) z :> y \<and> 0 \<le> y"
      by (intro exI [of _ "1 - inverse (1 + z\<^sup>2)"]) simp
  qed
  then show ?thesis by simp
qed

lemma sin2_le_sq: "(sin (x::real))\<^sup>2 \<le> x\<^sup>2"
  using abs_sin_x_le_abs_x [of x] by (simp add: abs_le_square_iff)

lemma cos_mult_le1: "cos (x::real) * cos y \<le> 1"
proof -
  have "\<bar>cos x * cos y\<bar> \<le> 1 * 1"
    unfolding abs_mult by (intro mult_mono) simp_all
  then show ?thesis by simp
qed

lemma hav_a_le_squares:
  "hav_a lat1 lon1 lat2 lon2 \<le> (radians (lat2 - lat1) / 2)\<^sup>2 + (radians (lon2 - lon1) / 2)\<^sup>2"
proof -
  have "cos (radians lat1) * cos (radians lat2) * (sin (radians (lon2 - lon1) / 2))\<^sup>2
        \<le> 1 * (sin (radians (lon2 - lon1) / 2))\<^sup>2"
    by (intro mult_right_mono cos_mult_le1) simp
  also have "\<dots> \<le> (radians (lon2 - lon1) / 2)\<^sup>2"
    by (simp add: sin2_le_sq)
  finally show ?thesis
    using sin2_le_sq [of "radians (lat2 - lat1) / 2"] by (simp add: hav_a_def Let_def)
qed

lemma great_circle_le:
  assumes a: "hav_a lat1 lon1 lat2 lon2 \<le> \<epsilon>\<^sup>2 / 2" and e: "0 \<le> \<epsilon>" "\<epsilon> \<le> 1"
  shows "great_circle lat1 lon1 lat2 lon2 \<le> 6371 * (2 * \<epsilon>)"
proof -
  define a where "a = hav_a lat1 lon1 lat2 lon2"
  have a0: "0 \<le> a" by (simp add: a_def hav_a_ge0)
  have "\<epsilon>\<^sup>2 \<le> 1" using e by (simp add: power_le_one)
  with a have ah: "a \<le> 1 / 2" unfolding a_def by linarith
  then have pos: "0 < sqrt (1 - a)" by simp
  have "a \<le> \<epsilon>\<^sup>2 * (1 - a)"
  proof -
    have "a \<le> \<epsilon>\<^sup>2 * (1 / 2)" using a by (simp add: a_def)
    also have "\<dots> \<le> \<epsilon>\<^sup>2 * (1 - a)" using ah by (intro mult_left_mono) simp_all
    finally show ?thesis .
  qed
  then have "a / (1 - a) \<le> \<epsilon>\<^sup>2"
    using ah by (simp add: pos_divide_le_eq)
  then have "sqrt (a / (1 - a)) \<le> sqrt (\<epsilon>\<^sup>2)"
    by (rule real_sqrt_le_mono)
  then have q: "sqrt a / sqrt (1 - a) \<le> \<epsilon>"
    using e by (simp add: real_sqrt_divide)
  have "atan2 (sqrt a) (sqrt (1 - a)) = arctan (sqrt a / sqrt (1 - a))"
    using pos by (simp add: atan2_def)
  also have "\<dots> \<le> sqrt a / sqrt (1 - a)"
    using a0 pos by (intro arctan_le_self) simp
  also note q
  finally show ?thesis
    by (simp add: great_circle_def a_def)
qed

lemma scenario_distance: "great_circle 40.1 (-74.05) 40 (-74) < 50"
proof -
  have x: "(radians (40 - 40.1) / 2)\<^sup>2 \<le> (1 / 900)\<^sup>2"
  proof -
    have "\<bar>radians (40 - 40.1) / 2\<bar> = pi / 3600"
      by (simp add: radians_def)
    also have "\<dots> \<le> 1 / 900" using pi_less_4 by simp
    finally show ?thesis by (simp add: abs_le_square_iff [symmetric])
  qed
  have y: "(radians (-74 - (-74.05)) / 2)\<^sup>2 \<le> (1 / 1800)\<^sup>2"
  proof -
    have "\<bar>radians (-74 - (-74.05)) / 2\<bar> = pi / 7200"
      by (simp add: radians_def)
    also have "\<dots> \<le> 1 / 1800" using pi_less_4 by simp
    finally show ?thesis by (simp add: abs_le_square_iff [symmetric])
  qed
  have "hav_a 40.1 (-74.05) 40 (-74) \<le> (1 / 900)\<^sup>2 + (1 / 1800)\<^sup>2"
    using hav_a_le_squares [of "40.1" "-74.05" 40 "-74"] x y by linarith
  also have "\<dots> \<le> (1 / 500)\<^sup>2 / 2"
    by (simp add: power2_eq_square)
  finally have "great_circle 40.1 (-74.05) 40 (-74) \<le> 6371 * (2 * (1 / 500))"
    by (rule great_circle_le) simp_all
  then show ?thesis by simp
qed

lemma great_circle_of_half:
  assumes "hav_a lat1 lon1 lat2 lon2 = 1 / 2"
  shows "great_circle lat1 lon1 lat2 lon2 = 6371 * pi / 2"
proof -
  have "atan2 (sqrt (1 / 2)) (sqrt (1 / 2)) = pi / 4"
    by (simp add: atan2_def arctan_one real_sqrt_divide)
  then show ?thesis
    by (simp add: great_circle_def assms)
qed

lemma great_circle_of_one:
  assumes "hav_a lat1 lon1 lat2 lon2 = 1"
  shows "great_circle lat1 lon1 lat2 lon2 = 6371 * pi"
  by (simp add: great_circle_def assms atan2_def)

lemma sin_quarter_sq: "(sin (pi / 4))\<^sup>2 = 1 / 2"
  by (simp add: sin_45 power2_eq_square)

lemma hav_a_quarter_turn: "hav_a 0 90 0 0 = 1 / 2" "hav_a 0 (-90) 0 0 = 1 / 2"
proof -
  have "radians (0 - 90) / 2 = - (pi / 4)" "radians (0 - (-90)) / 2 = pi / 4"
    by (simp_all add: radians_def)
  then show "hav_a 0 90 0 0 = 1 / 2" "hav_a 0 (-90) 0 0 = 1 / 2"
    by (simp_all add: hav_a_def Let_def sin_quarter_sq radians_def)
qed

lemma hav_a_half_turn: "hav_a 0 (-90) 0 90 = 1"
proof -
  have "radians (90 - (-90)) / 2 = pi / 2"
    by (simp add: radians_def)
  then show ?thesis
    by (simp add: hav_a_def Let_def radians_def)
qed

lemma chain_distances:
  "great_circle 0 90 0 0 = 6371 * pi / 2"
  "great_circle 0 (-90) 0 0 = 6371 * pi / 2"
  "great_circle 0 (-90) 0 90 = 6371 * pi"
  by (simp_all add: great_circle_of_half hav_a_quarter_turn great_circle_of_one hav_a_half_turn)








section \<open>Properties of the zone assignment\<close>

lemma assign_zone_cases:
  "assign_zone lon =
     (if -180 \<le> lon \<and> lon < -30 then ''AMERICAS''
      else if -30 \<le> lon \<and> lon < 60 then ''EMEA'' else ''APAC'')"
  by (simp add: assign_zone_def ZONES_def)

lemma assign_zone_loop_first:
  assumes "z \<in> set zs" "in_zone lon z" "\<forall>z'\<in>set zs. in_zone lon z' \<longrightarrow> z' = z"
  shows "assign_zone_loop zs lon = fst z"
  using assms
proof (induction zs)
  case Nil
  then show ?case by simp
next
  case (Cons y ys)
  obtain yn yd where y: "y = (yn, yd)" by (cases y)
  show ?case
  proof (cases "in_zone lon y")
    case True
    with Cons.prems have "z = y" by simp
    with True show ?thesis by (simp add: y in_zone_def)
  next
    case False
    with Cons.prems have "z \<in> set ys" by auto
    moreover have "\<forall>z'\<in>set ys. in_zone lon z' \<longrightarrow> z' = z"
      using Cons.prems(3) by simp
    ultimately have "assign_zone_loop ys lon = fst z"
      using Cons.IH Cons.prems(2) by blast
    moreover have "\<not> (lon_min yd \<le> lon \<and> lon < lon_max yd)"
      using False by (simp add: y in_zone_def)
    ultimately show ?thesis
      by (auto simp: y)
  qed
qed

lemma assign_zone_loop_fallback:
  "\<forall>z\<in>set zs. \<not> in_zone lon z \<Longrightarrow> assign_zone_loop zs lon = ''APAC''"
  by (induction zs) (auto simp: in_zone_def)

lemma ZONES_shape:
  obtains A E P where "ZONES = [A, E, P]"
    "lon_min (snd A) = -180" "lon_max (snd A) = -30"
    "lon_min (snd E) = -30" "lon_max (snd E) = 60"
    "lon_min (snd P) = 60" "lon_max (snd P) = 180"
  by (simp add: ZONES_def)

lemma in_zone_unique:
  assumes "-180 \<le> lon" "lon < 180"
  shows "\<exists>!z. z \<in> set ZONES \<and> in_zone lon z"
proof -
  obtain A E P where Z: "ZONES = [A, E, P]"
    and b: "lon_min (snd A) = -180" "lon_max (snd A) = -30"
    "lon_min (snd E) = -30" "lon_max (snd E) = 60"
    "lon_min (snd P) = 60" "lon_max (snd P) = 180"
    by (rule ZONES_shape)
  consider "lon < -30" | "-30 \<le> lon" "lon < 60" | "60 \<le> lon"
    by linarith
  then show ?thesis
  proof cases
    case 1
    then have "in_zone lon A" "\<not> in_zone lon E" "\<not> in_zone lon P"
      using assms by (simp_all add: in_zone_def b)
    then show ?thesis unfolding Z by (intro ex1I [of _ A]) auto
  next
    case 2
    then have "\<not> in_zone lon A" "in_zone lon E" "\<not> in_zone lon P"
      using assms by (simp_all add: in_zone_def b)
    then show ?thesis unfolding Z by (intro ex1I [of _ E]) auto
  next
    case 3
    then have "\<not> in_zone lon A" "\<not> in_zone lon E" "in_zone lon P"
      using assms by (simp_all add: in_zone_def b)
    then show ?thesis unfolding Z by (intro ex1I [of _ P]) auto
  qed
qed

lemma in_zone_range:
  assumes "z \<in> set ZONES" "in_zone lon z"
  shows "-180 \<le> lon \<and> lon < 180"
proof -
  obtain A E P where Z: "ZONES = [A, E, P]"
    and b: "lon_min (snd A) = -180" "lon_max (snd A) = -30"
    "lon_min (snd E) = -30" "lon_max (snd E) = 60"
    "lon_min (snd P) = 60" "lon_max (snd P) = 180"
    by (rule ZONES_shape)
  from assms(1) have "z = A \<or> z = E \<or> z = P" by (simp add: Z)
  with assms(2) show ?thesis
    by (elim disjE) (simp_all add: in_zone_def b)
qed

lemma assign_zone_pick:
  assumes "z \<in> set ZONES" "in_zone lon z"
  shows "assign_zone lon = fst z"
proof -
  from in_zone_range [OF assms] have "\<exists>!z. z \<in> set ZONES \<and> in_zone lon z"
    by (simp add: in_zone_unique)
  with assms have "\<forall>z'\<in>set ZONES. in_zone lon z' \<longrightarrow> z' = z"
    by blast
  with assms show ?thesis
    unfolding assign_zone_def by (intro assign_zone_loop_first)
qed

section \<open>The deduplication loop\<close>

lemma distance_between_returns:
  "distance_between h c e =
     Inr (great_circle (latitude (h c)) (longitude (h c)) (latitude (h e)) (longitude (h e)))"
  by (simp add: distance_between_def haversine_km_returns)

lemma find_match_Cons:
  "find_match h t c (e # es) =
     (if near h t c e then Inr (Some (e, h(e := merge_into (h e) (h c))))
      else find_match h t c es)"
  by (simp add: distance_between_returns near_def)

lemma find_match_cases:
  "(find_match h t c u = Inr None \<and> (\<forall>e\<in>set u. \<not> near h t c e)) \<or>
   (\<exists>e. find_match h t c u = Inr (Some (e, h(e := merge_into (h e) (h c)))) \<and>
        e \<in> set u \<and> near h t c e)"
  by (induction u) (auto simp: find_match_Cons simp del: find_match.simps(2))

lemma dedup_loop_invariant:
  assumes init: "P cs st"
    and merge: "\<And>c rest u h mc ab e.
        P (c # rest) (u, h, mc, ab) \<Longrightarrow> e \<in> set u \<Longrightarrow> near h t c e \<Longrightarrow>
        P rest (u, h(e := merge_into (h e) (h c)), mc + 1, ab(e := ab e @ [c]))"
    and fresh: "\<And>c rest u h mc ab.
        P (c # rest) (u, h, mc, ab) \<Longrightarrow> \<forall>e\<in>set u. \<not> near h t c e \<Longrightarrow>
        P rest (u @ [c], h, mc, ab)"
  shows "\<exists>st'. dedup_loop t cs st = Inr st' \<and> P [] st'"
  using init
proof (induction cs arbitrary: st)
  case Nil
  then show ?case by simp
next
  case (Cons c rest)
  obtain u h mc ab where st: "st = (u, h, mc, ab)"
    by (cases st) auto
  from find_match_cases [of h t c u] show ?case
  proof (elim disjE conjE exE)
    assume fm: "find_match h t c u = Inr None" and far: "\<forall>e\<in>set u. \<not> near h t c e"
    have "P rest (u @ [c], h, mc, ab)"
      using Cons.prems far unfolding st by (rule fresh)
    from Cons.IH [OF this] show ?thesis
      by (simp add: st fm)
  next
    fix e
    assume fm: "find_match h t c u = Inr (Some (e, h(e := merge_into (h e) (h c))))"
      and e: "e \<in> set u" and nr: "near h t c e"
    have "P rest (u, h(e := merge_into (h e) (h c)), mc + 1, ab(e := ab e @ [c]))"
      using Cons.prems e nr unfolding st by (rule merge)
    from Cons.IH [OF this] show ?thesis
      by (simp add: st fm)
  qed
qed

lemma dedup_loop_invariant_elim:
  assumes run: "dedup_loop t cs st = Inr st'"
    and init: "P cs st"
    and merge: "\<And>c rest u h mc ab e.
        P (c # rest) (u, h, mc, ab) \<Longrightarrow> e \<in> set u \<Longrightarrow> near h t c e \<Longrightarrow>
        P rest (u, h(e := merge_into (h e) (h c)), mc + 1, ab(e := ab e @ [c]))"
    and fresh: "\<And>c rest u h mc ab.
        P (c # rest) (u, h, mc, ab) \<Longrightarrow> \<forall>e\<in>set u. \<not> near h t c e \<Longrightarrow>
        P rest (u @ [c], h, mc, ab)"
  shows "P [] st'"
  using dedup_loop_invariant [of P cs st t, OF init merge fresh] run by auto

lemma deduplicate_candidates_trace:
  "dedup_trace h cs t = Inr (u, h', mc, ab) \<Longrightarrow> deduplicate_candidates h cs t = Inr (u, h', mc)"
  by (simp add: deduplicate_candidates_def)

lemma deduplicate_candidates_InrD:
  assumes "deduplicate_candidates h cs t = Inr (u, h', mc)"
  obtains ab where "dedup_trace h cs t = Inr (u, h', mc, ab)"
  using assms by (auto simp: deduplicate_candidates_def split: sum.splits)

lemma same_identity_refl: "same_identity c c"
  by (simp add: same_identity_def)

lemma same_identity_merge_into: "same_identity (merge_into e c) e"
  by (simp add: same_identity_def merge_into_def Let_def split: option.splits)

lemma same_identity_trans: "same_identity a b \<Longrightarrow> same_identity b c \<Longrightarrow> same_identity a c"
  by (simp add: same_identity_def)

lemma near_cong:
  "same_identity (h' c) (h c) \<Longrightarrow> same_identity (h' e) (h e) \<Longrightarrow> near h' t c e = near h t c e"
  by (simp add: near_def same_identity_def)

lemma dedup_trace_frame:
  assumes "dedup_trace h cs t = Inr (u, h', mc, ab)"
  shows "set u \<subseteq> set cs \<and> (\<forall>r. same_identity (h' r) (h r))"
proof -
  let ?P = "\<lambda>rest (st :: dedup_state). case st of (u, g, mc, ab) \<Rightarrow>
      set u \<union> set rest \<subseteq> set cs \<and> (\<forall>r. same_identity (g r) (h r))"
  have "?P [] (u, h', mc, ab)"
  proof (rule dedup_loop_invariant_elim [where P = ?P])
    show "dedup_loop t (sort_key (\<lambda>r. importance (h r)) cs) ([], h, 0, \<lambda>r. []) = Inr (u, h', mc, ab)"
      using assms by (simp add: dedup_trace_def)
    show "?P (sort_key (\<lambda>r. importance (h r)) cs) ([], h, 0, \<lambda>r. [])"
      by (simp add: same_identity_refl)
  next
    fix c rest u g mc ab e
    assume "?P (c # rest) (u, g, mc, ab)"
    then show "?P rest (u, g(e := merge_into (g e) (g c)), mc + 1, ab(e := ab e @ [c]))"
      by (auto intro: same_identity_trans [OF same_identity_merge_into])
  next
    fix c rest u g mc ab
    assume "?P (c # rest) (u, g, mc, ab)"
    then show "?P rest (u @ [c], g, mc, ab)"
      by auto
  qed
  then show ?thesis by simp
qed

lemma apart_iff: "apart h t a b \<longleftrightarrow> \<not> near h t a b"
  by (simp add: apart_def distance_between_returns near_def not_less)

lemma closer_iff: "closer h t a b \<longleftrightarrow> near h t a b"
  by (simp add: closer_def distance_between_returns near_def)

lemma near_sym: "near h t a b = near h t b a"
  by (simp add: near_def great_circle_sym [of "latitude (h a)"])

lemma near_frame:
  assumes "\<forall>r. same_identity (h' r) (h r)"
  shows "near h' t c e = near h t c e"
  using assms by (simp add: near_cong)

lemma find_match_None:
  "\<forall>e\<in>set u. \<not> near h t c e \<Longrightarrow> find_match h t c u = Inr None"
  by (induction u) (simp_all add: find_match_Cons del: find_match.simps(2))

lemma dedup_trace_far:
  assumes "dedup_trace h cs t = Inr (u, h', mc, ab)"
  shows "sorted_wrt (\<lambda>e c. \<not> near h t c e) u"
proof -
  let ?P = "\<lambda>rest (st :: dedup_state). case st of (u, g, mc, ab) \<Rightarrow>
      (\<forall>r. same_identity (g r) (h r)) \<and> sorted_wrt (\<lambda>e c. \<not> near h t c e) u"
  have "?P [] (u, h', mc, ab)"
  proof (rule dedup_loop_invariant_elim [where P = ?P])
    show "dedup_loop t (sort_key (\<lambda>r. importance (h r)) cs) ([], h, 0, \<lambda>r. []) = Inr (u, h', mc, ab)"
      using assms by (simp add: dedup_trace_def)
    show "?P (sort_key (\<lambda>r. importance (h r)) cs) ([], h, 0, \<lambda>r. [])"
      by (simp add: same_identity_refl)
  next
    fix c rest u g mc ab e
    assume "?P (c # rest) (u, g, mc, ab)"
    then show "?P rest (u, g(e := merge_into (g e) (g c)), mc + 1, ab(e := ab e @ [c]))"
      by (auto intro: same_identity_trans [OF same_identity_merge_into])
  next
    fix c rest u g mc ab
    assume inv: "?P (c # rest) (u, g, mc, ab)" and far: "\<forall>e\<in>set u. \<not> near g t c e"
    from inv have "\<forall>r. same_identity (g r) (h r)" by simp
    with far have "\<forall>e\<in>set u. \<not> near h t c e"
      by (simp add: near_frame)
    with inv show "?P rest (u @ [c], g, mc, ab)"
      by (simp add: sorted_wrt_append)
  qed
  then show ?thesis by simp
qed

lemma sorted_wrt_insort_key:
  assumes "\<And>a b. R a b \<Longrightarrow> R b a"
  shows "sorted_wrt R xs \<Longrightarrow> \<forall>y\<in>set xs. R x y \<Longrightarrow> sorted_wrt R (insort_key f x xs)"
  using assms by (induction xs) (auto simp: set_insort_key)

lemma sorted_wrt_sort_key:
  assumes sym: "\<And>a b. R a b \<Longrightarrow> R b a"
  shows "sorted_wrt R xs \<Longrightarrow> sorted_wrt R (sort_key f xs)"
proof (induction xs)
  case Nil
  then show ?case by simp
next
  case (Cons x xs)
  then have "sorted_wrt R (sort_key f xs)" "\<forall>y\<in>set (sort_key f xs). R x y"
    by simp_all
  then show ?case
    using sym by (simp add: sorted_wrt_insort_key)
qed

lemma dedup_loop_all_fresh:
  "sorted_wrt (\<lambda>e c. \<not> near g t c e) (u @ xs) \<Longrightarrow>
   dedup_loop t xs (u, g, mc, ab) = Inr (u @ xs, g, mc, ab)"
proof (induction xs arbitrary: u)
  case Nil
  then show ?case by simp
next
  case (Cons c xs)
  from Cons.prems have "\<forall>e\<in>set u. \<not> near g t c e"
    by (simp add: sorted_wrt_append)
  then have fm: "find_match g t c u = Inr None"
    by (rule find_match_None)
  from Cons.prems have "sorted_wrt (\<lambda>e c. \<not> near g t c e) ((u @ [c]) @ xs)"
    by simp
  from Cons.IH [OF this] show ?case
    by (simp add: fm)
qed

lemma dedup_trace_second_run:
  assumes "dedup_trace h cs t = Inr (u, h', mc, ab)"
  shows "dedup_trace h' u t = Inr (sort_key (\<lambda>r. importance (h' r)) u, h', 0, \<lambda>r. [])"
proof -
  have fr: "\<forall>r. same_identity (h' r) (h r)"
    using dedup_trace_frame [OF assms] by simp
  have "sorted_wrt (\<lambda>e c. \<not> near h t c e) u"
    using assms by (rule dedup_trace_far)
  then have "sorted_wrt (\<lambda>e c. \<not> near h' t c e) u"
    by (simp add: near_frame [OF fr])
  then have "sorted_wrt (\<lambda>e c. \<not> near h' t c e) (sort_key (\<lambda>r. importance (h' r)) u)"
    by (rule sorted_wrt_sort_key [rotated]) (simp add: near_sym)
  then show ?thesis
    unfolding dedup_trace_def Let_def
    using dedup_loop_all_fresh [of h' t "[]"] by simp
qed

lemma merge_into_coords:
  "latitude (merge_into e c) = latitude e" "longitude (merge_into e c) = longitude e"
  using same_identity_merge_into [of e c] by (simp_all add: same_identity_def)

lemma near_merge_upd:
  "near (g(e := merge_into (g e) (g c))) t a b = near g t a b"
  by (simp add: near_def merge_into_coords)

lemma merge_into_sources:
  "source (merge_into e c) = source e"
  "merged_sources e = None \<Longrightarrow> merged_sources (merge_into e c) = Some [source e, source c]"
  by (simp_all add: merge_into_def Let_def split: option.splits)

lemma pair_sorted:
  assumes "source (h g) = ''ground_node''" "source (h c) \<noteq> ''ground_node''"
  shows "sort_key (\<lambda>r. importance (h r)) [g, c] = [g, c]"
    and "sort_key (\<lambda>r. importance (h r)) [c, g] = [g, c]"
  using assms by (simp_all add: importance_def)

lemma pair_trace:
  assumes "source (h g) = ''ground_node''" "source (h c) \<noteq> ''ground_node''"
    and "near h t c g" and "cs = [g, c] \<or> cs = [c, g]"
  shows "dedup_trace h cs t = Inr ([g], h(g := merge_into (h g) (h c)), 1, (\<lambda>r. [])(g := [c]))"
proof -
  have "sort_key (\<lambda>r. importance (h r)) cs = [g, c]"
    using assms(4) pair_sorted [of h g c] assms(1,2) by auto
  then show ?thesis
    unfolding dedup_trace_def Let_def
    by (simp add: find_match_Cons assms(3) del: find_match.simps(2))
qed

lemma near_same_coords:
  assumes "latitude (h a) = latitude (h b)" "longitude (h a) = longitude (h b)" "0 < t"
  shows "near h t a b"
  using assms by (simp add: near_def great_circle_same)

lemma sorted_wrt_distinct_pair:
  "sorted_wrt R u \<Longrightarrow> x \<in> set u \<Longrightarrow> y \<in> set u \<Longrightarrow> x \<noteq> y \<Longrightarrow> R x y \<or> R y x"
  by (induction u) auto

section \<open>What a representative accumulates\<close>

lemma cable_count_merge_into:
  "cable_count (merge_into e c) =
     (case cable_count c of
        None \<Rightarrow> cable_count e
      | Some m \<Rightarrow>
          (case cable_count e of
             None \<Rightarrow> if m \<noteq> 0 then Some m else None
           | Some n \<Rightarrow> if n \<noteq> 0 \<and> m \<noteq> 0 then Some (max n m) else Some n))"
  by (simp add: merge_into_def Let_def truthy_int_def split: option.splits)

lemma weather_score_merge_into:
  "weather_score (merge_into e c) =
     (case weather_score e of
        Some w \<Rightarrow> Some w
      | None \<Rightarrow> if truthy_real (weather_score c) then weather_score c else None)"
  by (simp add: merge_into_def Let_def split: option.splits)

lemma cable_count_fold:
  assumes nonneg: "\<forall>c\<in>set (e # cs). \<forall>k. cable_count c = Some k \<longrightarrow> 0 \<le> k"
    and zero: "cable_count e = Some 0 \<Longrightarrow> \<forall>c\<in>set cs. cable_count c = None \<or> cable_count c = Some 0"
  shows "case cable_count (foldl merge_into e cs) of
           None \<Rightarrow> cable_count e = None \<and> (\<forall>c\<in>set cs. cable_count c = None \<or> cable_count c = Some 0)
         | Some x \<Rightarrow> 0 \<le> x \<and> (x = 0 \<longrightarrow> cable_count e = Some 0) \<and>
                     (\<exists>c\<in>set (e # cs). cable_count c = Some x) \<and>
                     (\<forall>c\<in>set (e # cs). \<forall>k. cable_count c = Some k \<longrightarrow> k \<le> x)"
  using assms
proof (induction cs rule: rev_induct)
  case Nil
  then show ?case by (cases "cable_count e") auto
next
  case (snoc c cs)
  let ?F = "foldl merge_into e cs"
  have IH: "case cable_count ?F of
           None \<Rightarrow> cable_count e = None \<and> (\<forall>c\<in>set cs. cable_count c = None \<or> cable_count c = Some 0)
         | Some x \<Rightarrow> 0 \<le> x \<and> (x = 0 \<longrightarrow> cable_count e = Some 0) \<and>
                     (\<exists>c\<in>set (e # cs). cable_count c = Some x) \<and>
                     (\<forall>c\<in>set (e # cs). \<forall>k. cable_count c = Some k \<longrightarrow> k \<le> x)"
    using snoc by auto
  show ?case
  proof (cases "cable_count c")
    case None
    with IH show ?thesis
      by (auto simp: cable_count_merge_into split: option.splits)
  next
    case (Some m)
    with snoc.prems(1) have m0: "0 \<le> m" by simp
    show ?thesis
    proof (cases "m = 0")
      case True
      with IH Some show ?thesis
        by (auto simp: cable_count_merge_into split: option.splits)
    next
      case False
      with m0 have mpos: "0 < m" by simp
      show ?thesis
      proof (cases "cable_count ?F")
        case None
        with IH have "cable_count e = None"
          "\<forall>c\<in>set cs. cable_count c = None \<or> cable_count c = Some 0" by simp_all
        with None Some mpos show ?thesis
          by (auto simp: cable_count_merge_into)
      next
        case F: (Some x)
        with IH have x: "0 \<le> x" "x = 0 \<longrightarrow> cable_count e = Some 0"
          "\<exists>c\<in>set (e # cs). cable_count c = Some x"
          "\<forall>c\<in>set (e # cs). \<forall>k. cable_count c = Some k \<longrightarrow> k \<le> x" by simp_all
        have "x \<noteq> 0"
        proof
          assume "x = 0"
          with x have "cable_count e = Some 0" by simp
          from snoc.prems(2) [OF this] Some False show False by simp
        qed
        with x(1) have xpos: "0 < x" by simp
        have res: "cable_count (foldl merge_into e (cs @ [c])) = Some (max x m)"
          using F Some \<open>x \<noteq> 0\<close> False by (simp add: cable_count_merge_into)
        have ex: "\<exists>c'\<in>set (e # cs @ [c]). cable_count c' = Some (max x m)"
        proof (cases "x \<le> m")
          case True
          then show ?thesis using Some by (auto simp: max_def)
        next
          case False
          then show ?thesis using x(3) by (auto simp: max_def)
        qed
        have all: "\<forall>c'\<in>set (e # cs @ [c]). \<forall>k. cable_count c' = Some k \<longrightarrow> k \<le> max x m"
          using x(4) Some by auto
        from xpos have "0 \<le> max x m" "max x m \<noteq> 0" by simp_all
        with res ex all show ?thesis by simp
      qed
    qed
  qed
qed

lemma grown_refl: "grown a a"
  by (simp add: grown_def)

lemma grown_merge_into:
  assumes "grown a F"
  shows "grown a (merge_into F c)"
proof -
  have src: "source (merge_into F c) = source a"
    using assms by (simp add: merge_into_sources grown_def)
  have none: "cable_count a = None" if "cable_count (merge_into F c) = None"
    using that assms
    by (auto simp: cable_count_merge_into grown_def split: option.splits if_splits)
  have some: "\<exists>n. cable_count (merge_into F c) = Some n \<and> k \<le> n \<and> n \<noteq> 0"
    if "cable_count a = Some k" "k \<noteq> 0" for k
  proof -
    from assms that obtain n where n: "cable_count F = Some n" "k \<le> n" "n \<noteq> 0"
      by (auto simp: grown_def)
    show ?thesis
    proof (cases "cable_count c")
      case None
      with n show ?thesis by (simp add: cable_count_merge_into)
    next
      case (Some m)
      with n show ?thesis by (auto simp: cable_count_merge_into max_def)
    qed
  qed
  have ws: "weather_score a = None" if "weather_score (merge_into F c) = None"
    using that assms
    by (auto simp: weather_score_merge_into grown_def split: option.splits if_splits)
  from src none some ws show ?thesis
    unfolding grown_def by blast
qed

lemma grown_foldl: "grown a F \<Longrightarrow> grown a (foldl merge_into F xs)"
  by (induction xs arbitrary: F) (simp_all add: grown_merge_into)

lemma merge_into_self:
  assumes "grown a F"
  shows "merge_into F F = merge_into F a"
proof (cases "cable_count F")
  case None
  with assms have "cable_count a = None" by (simp add: grown_def)
  with None assms show ?thesis
    by (cases "weather_score F") (auto simp: merge_into_def Let_def grown_def truthy_int_def truthy_real_def)
next
  case (Some n)
  show ?thesis
  proof (cases "n = 0")
    case True
    with Some assms show ?thesis
      by (cases "weather_score F")
        (auto simp: merge_into_def Let_def grown_def truthy_int_def truthy_real_def)
  next
    case False
    have upd: "e\<lparr>cable_count := Some n\<rparr> = e" if "cable_count e = Some n" for e :: Candidate
      using that by simp
    show ?thesis
    proof (cases "cable_count a")
      case None
      with Some False assms show ?thesis
        by (cases "weather_score F")
          (auto simp: merge_into_def Let_def grown_def truthy_int_def truthy_real_def upd)
    next
      case a: (Some k)
      show ?thesis
      proof (cases "k = 0")
        case True
        with a Some False assms show ?thesis
          by (cases "weather_score F")
            (auto simp: merge_into_def Let_def grown_def truthy_int_def truthy_real_def upd)
      next
        case k: False
        with a assms Some have "k \<le> n" by (auto simp: grown_def)
        then have "max n k = n" by simp
        with a k Some False assms show ?thesis
          by (cases "weather_score F")
            (auto simp: merge_into_def Let_def grown_def truthy_int_def truthy_real_def upd)
      qed
    qed
  qed
qed

lemma dedup_trace_fold:
  assumes run: "dedup_trace h cs t = Inr (u, h', mc, ab)"
  shows "(\<forall>e\<in>set u. h' e = foldl merge_into (h e) (map h (ab e))) \<and>
         (\<forall>e\<in>set u. \<forall>c\<in>set (ab e). importance (h e) \<le> importance (h c)) \<and>
         (\<forall>r. r \<notin> set u \<longrightarrow> h' r = h r \<and> ab r = []) \<and>
         (\<forall>r. set (ab r) \<subseteq> set cs)"
proof -
  let ?key = "\<lambda>r. importance (h r)"
  let ?far = "\<lambda>e c. \<not> near h t c e"
  let ?P = "\<lambda>rest (st :: dedup_state). case st of (u, g, mc, ab) \<Rightarrow>
      (\<forall>r. same_identity (g r) (h r)) \<and> sorted_wrt ?far u \<and>
      sorted (map ?key rest) \<and>
      (\<forall>e\<in>set u. \<forall>c\<in>set rest. ?key e \<le> ?key c) \<and>
      (\<forall>e\<in>set u. g e = foldl merge_into (h e) (map h (ab e))) \<and>
      (\<forall>e\<in>set u. \<forall>c\<in>set (ab e). ?key e \<le> ?key c) \<and>
      (\<forall>r. r \<notin> set u \<longrightarrow> g r = h r \<and> ab r = []) \<and>
      set rest \<subseteq> set cs \<and> (\<forall>r. set (ab r) \<subseteq> set cs)"
  have "?P [] (u, h', mc, ab)"
  proof (rule dedup_loop_invariant_elim [where P = ?P])
    show "dedup_loop t (sort_key ?key cs) ([], h, 0, \<lambda>r. []) = Inr (u, h', mc, ab)"
      using run by (simp add: dedup_trace_def)
    show "?P (sort_key ?key cs) ([], h, 0, \<lambda>r. [])"
      by (simp add: sorted_sort_key same_identity_refl)
  next
    fix c rest u g mc ab e
    assume inv: "?P (c # rest) (u, g, mc, ab)" and e: "e \<in> set u" and nr: "near g t c e"
    from inv have fr: "\<forall>r. same_identity (g r) (h r)" by simp
    from nr have nrh: "near h t c e" by (simp add: near_frame [OF fr])
    from inv e have ge: "g e = foldl merge_into (h e) (map h (ab e))" by simp
    from inv e have le: "?key e \<le> ?key c" by simp
    have merged: "merge_into (g e) (g c) = merge_into (g e) (h c)"
    proof (cases "c \<in> set u")
      case False
      with inv show ?thesis by simp
    next
      case True
      have "c = e"
      proof (rule ccontr)
        assume "c \<noteq> e"
        with inv True e have "\<not> near h t e c \<or> \<not> near h t c e"
          using sorted_wrt_distinct_pair [of ?far u c e] by simp
        with nrh show False by (simp add: near_sym [of h t e c])
      qed
      moreover have "grown (h e) (g e)"
        unfolding ge by (intro grown_foldl grown_refl)
      ultimately show ?thesis by (simp add: merge_into_self)
    qed
    have fr': "\<forall>r. same_identity ((g(e := merge_into (g e) (g c))) r) (h r)"
      using fr by (auto intro: same_identity_trans [OF same_identity_merge_into])
    have fold': "\<forall>e'\<in>set u. (g(e := merge_into (g e) (g c))) e' =
        foldl merge_into (h e') (map h ((ab(e := ab e @ [c])) e'))"
      using inv ge merged by simp
    have keys': "\<forall>e'\<in>set u. \<forall>c'\<in>set ((ab(e := ab e @ [c])) e'). ?key e' \<le> ?key c'"
      using inv le by simp
    have rest': "\<forall>r. r \<notin> set u \<longrightarrow> (g(e := merge_into (g e) (g c))) r = h r \<and>
        (ab(e := ab e @ [c])) r = []"
      using inv e by auto
    have sub': "set rest \<subseteq> set cs \<and> (\<forall>r. set ((ab(e := ab e @ [c])) r) \<subseteq> set cs)"
      using inv by auto
    from inv have "sorted_wrt ?far u" "sorted (map ?key rest)"
      "\<forall>e\<in>set u. \<forall>c\<in>set rest. ?key e \<le> ?key c" by simp_all
    with fr' fold' keys' rest' sub'
    show "?P rest (u, g(e := merge_into (g e) (g c)), mc + 1, ab(e := ab e @ [c]))"
      by simp
  next
    fix c rest u g mc ab
    assume inv: "?P (c # rest) (u, g, mc, ab)" and far: "\<forall>e\<in>set u. \<not> near g t c e"
    from inv have fr: "\<forall>r. same_identity (g r) (h r)" by simp
    with far have "\<forall>e\<in>set u. \<not> near h t c e"
      by (simp add: near_frame)
    with inv have s: "sorted_wrt ?far (u @ [c])"
      by (simp add: sorted_wrt_append)
    from inv have k: "\<forall>c'\<in>set rest. ?key c \<le> ?key c'" by simp
    have b: "g c = foldl merge_into (h c) (map h (ab c))"
      using inv by (cases "c \<in> set u") simp_all
    have e: "\<forall>c'\<in>set (ab c). ?key c \<le> ?key c'"
      using inv by (cases "c \<in> set u") simp_all
    from inv fr s k b e show "?P rest (u @ [c], g, mc, ab)"
      by auto
  qed
  then show ?thesis by simp
qed

lemma loaded_zero_rep:
  assumes loaded: "counts_as_loaded h cs" and e: "e \<in> set cs" and c: "c \<in> set cs"
    and zero: "cable_count (h e) = Some 0"
    and le: "importance (h e) \<le> importance (h c)"
  shows "cable_count (h c) = None \<or> cable_count (h c) = Some 0"
proof (cases "cable_count (h c)")
  case None
  then show ?thesis by simp
next
  case (Some k)
  from loaded e zero have "source (h e) \<noteq> ''ground_node''"
    by (auto simp: counts_as_loaded_def)
  with le zero Some have "k \<le> 0"
    by (auto simp: importance_def or_zero_def truthy_int_def split: if_splits)
  moreover from loaded c Some have "0 \<le> k"
    by (auto simp: counts_as_loaded_def)
  ultimately show ?thesis using Some by simp
qed

lemma dedup_trace_max_count:
  assumes run: "dedup_trace h cs t = Inr (u, h', mc, ab)"
    and loaded: "counts_as_loaded h cs" and e: "e \<in> set u" and x: "cable_count (h' e) = Some x"
  shows "is_max_count h (e # ab e) x"
proof -
  note tr = dedup_trace_fold [OF run]
  from dedup_trace_frame [OF run] e have ecs: "e \<in> set cs" by auto
  from tr have abcs: "set (ab e) \<subseteq> set cs" by simp
  from tr e have fold: "h' e = foldl merge_into (h e) (map h (ab e))" by simp
  from tr e have keys: "\<forall>c\<in>set (ab e). importance (h e) \<le> importance (h c)" by simp
  have nonneg: "\<forall>c\<in>set (h e # map h (ab e)). \<forall>k. cable_count c = Some k \<longrightarrow> 0 \<le> k"
    using loaded ecs abcs by (auto simp: counts_as_loaded_def split: option.splits)
  have zero: "\<forall>c\<in>set (map h (ab e)). cable_count c = None \<or> cable_count c = Some 0"
    if "cable_count (h e) = Some 0"
    using loaded_zero_rep [OF loaded ecs _ that] keys abcs by auto
  from cable_count_fold [OF nonneg zero] x
  have "(\<exists>c\<in>set (h e # map h (ab e)). cable_count c = Some x) \<and>
        (\<forall>c\<in>set (h e # map h (ab e)). \<forall>k. cable_count c = Some k \<longrightarrow> k \<le> x)"
    by (simp add: fold)
  then show ?thesis
    by (auto simp: is_max_count_def split: option.splits)
qed

section \<open>The examples\<close>

lemma chain_heap_coords:
  "latitude (chain_heap r) = 0"
  "longitude (chain_heap 10) = 0" "longitude (chain_heap 11) = 90" "longitude (chain_heap 12) = -90"
  by (simp_all add: chain_heap_def blank_def)

lemma chain_sorted:
  "sort_key (\<lambda>r. importance (chain_heap r)) [11, 10, 12] = [10, 11, 12]"
  by (simp add: importance_def or_zero_def truthy_int_def chain_heap_def blank_def)

lemma chain_near:
  "near chain_heap 12742 11 10" "near chain_heap 12742 12 10" "\<not> near chain_heap 12742 12 11"
  "\<not> near chain_heap 12742 11 12"
  using pi_less_4 pi_ge_two
  by (simp_all add: near_def chain_heap_coords chain_distances
      great_circle_sym [of 0 90 0 "-90"])

lemma chain_trace:
  "dedup_trace chain_heap [11, 10, 12] 12742 =
     Inr ([10],
          chain_heap(10 := merge_into (merge_into (chain_heap 10) (chain_heap 11)) (chain_heap 12)),
          2, (\<lambda>r. [])(10 := [11, 12]))"
proof -
  show ?thesis
    unfolding dedup_trace_def Let_def chain_sorted
    by (simp add: find_match_Cons near_merge_upd chain_near del: find_match.simps(2))
qed

lemma chain_far_apart:
  "\<not> near chain_heap 100 11 10" "\<not> near chain_heap 100 12 10" "\<not> near chain_heap 100 12 11"
  using pi_ge_two
  by (simp_all add: near_def chain_heap_coords chain_distances)

lemma chain_trace_small:
  "dedup_trace chain_heap [11, 10, 12] 100 = Inr ([10, 11, 12], chain_heap, 0, \<lambda>r. [])"
  unfolding dedup_trace_def Let_def chain_sorted
  by (simp add: find_match_Cons chain_far_apart del: find_match.simps(2))

lemma scenario_near: "near scenario_heap 50 21 20"
  using scenario_distance by (simp add: near_def scenario_heap_def blank_def)

lemma scenario_trace:
  "dedup_trace scenario_heap [20, 21] 50 =
     Inr ([20], scenario_heap(20 := merge_into (scenario_heap 20) (scenario_heap 21)), 1,
          (\<lambda>r. [])(20 := [21]))"
  by (intro pair_trace scenario_near) (simp_all add: scenario_heap_def blank_def)

lemma zero_count_trace:
  "dedup_trace zero_count_heap [30, 31] 50 =
     Inr ([30], zero_count_heap(30 := merge_into (zero_count_heap 30) (zero_count_heap 31)), 1,
          (\<lambda>r. [])(30 := [31]))"
  by (intro pair_trace near_same_coords) (simp_all add: zero_count_heap_def blank_def)

lemma zero_score_sorted:
  "sort_key (\<lambda>r. importance (zero_score_heap r)) [40, 41, 42] = [40, 41, 42]"
  by (simp add: importance_def or_zero_def truthy_int_def zero_score_heap_def blank_def)

lemma zero_score_near: "near zero_score_heap 50 41 40" "near zero_score_heap 50 42 40"
  by (rule near_same_coords; simp add: zero_score_heap_def blank_def)+

lemma zero_score_trace:
  "dedup_trace zero_score_heap [40, 41, 42] 50 =
     Inr ([40],
          zero_score_heap
            (40 := merge_into (merge_into (zero_score_heap 40) (zero_score_heap 41))
                              (zero_score_heap 42)),
          2, (\<lambda>r. [])(40 := [41, 42]))"
  unfolding dedup_trace_def Let_def zero_score_sorted
  by (simp add: find_match_Cons near_merge_upd zero_score_near del: find_match.simps(2))

lemma zero_score_values:
  "weather_score (zero_score_heap 40) = None"
  "weather_score (zero_score_heap 41) = Some 0"
  "weather_score (zero_score_heap 42) = Some (1 / 2)"
  by (simp_all add: zero_score_heap_def blank_def)

section \<open>The loaders\<close>

lemma ground_node_candidate_cables:
  "cable_count (ground_node_candidate node n lat lon) = None"
  "cables (ground_node_candidate node n lat lon) = None"
  by (simp_all add: ground_node_candidate_def)

lemma landing_candidate_cables:
  "cable_count (landing_candidate point n lat lon) = get_default (lp_cable_count point) 0"
  "cables (landing_candidate point n lat lon) = get_default (lp_cables point) []"
  by (simp_all add: landing_candidate_def)

lemma load_ground_nodes_loop_no_cables:
  "\<forall>c\<in>set candidates. cable_count c = None \<and> cables c = None \<Longrightarrow>
   \<forall>c\<in>set (load_ground_nodes_loop nodes candidates). cable_count c = None \<and> cables c = None"
proof (induction nodes arbitrary: candidates)
  case Nil
  then show ?case by simp
next
  case (Cons node nodes)
  show ?case
  proof (cases "get (gn_latitude node)")
    case None
    from Cons.IH [OF Cons.prems] show ?thesis by (simp add: None)
  next
    case lat: (Some lat)
    show ?thesis
    proof (cases "get (gn_longitude node)")
      case None
      from Cons.IH [OF Cons.prems] show ?thesis by (simp add: lat None)
    next
      case (Some lon)
      let ?new = "candidates @ [ground_node_candidate node (length candidates) lat lon]"
      have "\<forall>c\<in>set ?new. cable_count c = None \<and> cables c = None"
        using Cons.prems by (simp add: ground_node_candidate_cables)
      from Cons.IH [OF this] show ?thesis
        by (simp add: lat Some)
    qed
  qed
qed

lemma load_cable_landings_loop_map:
  assumes field: "\<And>p n lat lon. f (landing_candidate p n lat lon) = g p"
  shows "map f (load_cable_landings_loop points candidates) =
           map f candidates @ map g (filter has_coordinates points)"
proof (induction points arbitrary: candidates)
  case Nil
  then show ?case by simp
next
  case (Cons point points)
  show ?case
  proof (cases "get (lp_latitude point)")
    case None
    then show ?thesis by (simp add: Cons.IH has_coordinates_def)
  next
    case lat: (Some lat)
    show ?thesis
    proof (cases "get (lp_longitude point)")
      case None
      then show ?thesis by (simp add: lat Cons.IH has_coordinates_def)
    next
      case (Some lon)
      then show ?thesis
        by (simp add: lat Cons.IH field has_coordinates_def)
    qed
  qed
qed

section \<open>The claims\<close>

text \<open>
  C1, as the code has it. For a candidate list whose cable counts are never negative
  and never \<open>0\<close> on a ground node (the loader gives a ground node none), when the call
  returns, the cable count of every surviving representative, when present, is the
  largest cable count among the representative and the candidates merged into it, as
  they were on entry. In one merge, a candidate's count that is higher than the
  representative's positive count replaces it, and a candidate with a lower or absent
  count leaves the representative's count as it is.
\<close>

theorem cable_count_is_max_of_cluster:
  "(counts_as_loaded h cs \<and>
    dedup_trace h cs t = Inr (unique, h', merged_count, absorbed) \<longrightarrow>
      (\<forall>e\<in>set unique. case cable_count (h' e) of
                           None \<Rightarrow> True
                         | Some x \<Rightarrow> is_max_count h (e # absorbed e) x)) \<and>
   (cable_count existing = Some n \<and> cable_count candidate = Some k \<and> 0 < n \<and> n < k \<longrightarrow>
      cable_count (merge_into existing candidate) = Some k) \<and>
   (cable_count existing = Some n \<and>
    (cable_count candidate = None \<or> (\<exists>k. cable_count candidate = Some k \<and> k \<le> n)) \<longrightarrow>
      cable_count (merge_into existing candidate) = Some n)"
proof (intro conjI impI ballI)
  fix e
  assume hyp: "counts_as_loaded h cs \<and>
    dedup_trace h cs t = Inr (unique, h', merged_count, absorbed)" and e: "e \<in> set unique"
  then have run: "dedup_trace h cs t = Inr (unique, h', merged_count, absorbed)"
    and loaded: "counts_as_loaded h cs" by simp_all
  show "case cable_count (h' e) of None \<Rightarrow> True | Some x \<Rightarrow> is_max_count h (e # absorbed e) x"
    using dedup_trace_max_count [OF run loaded e] by (simp split: option.splits)
next
  assume "cable_count existing = Some n \<and> cable_count candidate = Some k \<and> 0 < n \<and> n < k"
  then show "cable_count (merge_into existing candidate) = Some k"
    by (simp add: cable_count_merge_into)
next
  assume "cable_count existing = Some n \<and>
    (cable_count candidate = None \<or> (\<exists>k. cable_count candidate = Some k \<and> k \<le> n))"
  then show "cable_count (merge_into existing candidate) = Some n"
    by (auto simp: cable_count_merge_into)
qed

text \<open>
  The scenario of the specification: the call returns, the ground node ends with cable
  count 5, the largest of its cluster; merging counts of 7, 3 and none into a count of
  5 gives 7, 5 and 5.
\<close>

theorem cable_count_is_max_of_cluster_witness:
  "dedup_trace scenario_heap [20, 21] 50 =
     Inr ([20], scenario_heap(20 := merge_into (scenario_heap 20) (scenario_heap 21)), 1,
          (\<lambda>r. [])(20 := [21])) \<and>
   cable_count (merge_into (scenario_heap 20) (scenario_heap 21)) = Some 5 \<and>
   is_max_count scenario_heap [20, 21] 5 \<and>
   cable_count (merge_into (scenario_heap 21) (blank\<lparr>cable_count := Some 7\<rparr>)) = Some 7 \<and>
   cable_count (merge_into (scenario_heap 21) (blank\<lparr>cable_count := Some 3\<rparr>)) = Some 5 \<and>
   cable_count (merge_into (scenario_heap 21) blank) = Some 5"
proof -
  let ?h' = "scenario_heap(20 := merge_into (scenario_heap 20) (scenario_heap 21))"
  note main = cable_count_is_max_of_cluster
  have hyp: "counts_as_loaded scenario_heap [20, 21]"
    by (simp add: counts_as_loaded_def scenario_heap_def blank_def)
  have cc: "cable_count (merge_into (scenario_heap 20) (scenario_heap 21)) = Some 5"
    by (simp add: cable_count_merge_into scenario_heap_def blank_def)
  from main [of scenario_heap "[20, 21]" 50 "[20]" ?h' 1 "(\<lambda>r. [])(20 := [21])"]
    hyp scenario_trace
  have "\<forall>e\<in>set [20]. case cable_count (?h' e) of
                           None \<Rightarrow> True
                         | Some x \<Rightarrow> is_max_count scenario_heap (e # ((\<lambda>r. [])(20 := [21])) e) x"
    by blast
  then have mx: "is_max_count scenario_heap [20, 21] 5"
    using cc by simp
  have c21: "cable_count (scenario_heap 21) = Some 5"
    by (simp add: scenario_heap_def blank_def)
  have raise: "cable_count (merge_into (scenario_heap 21) (blank\<lparr>cable_count := Some 7\<rparr>)) = Some 7"
    using main [of h cs t u g m a "scenario_heap 21" 5 "blank\<lparr>cable_count := Some 7\<rparr>" 7] c21
    by simp
  have lower: "cable_count (merge_into (scenario_heap 21) (blank\<lparr>cable_count := Some 3\<rparr>)) = Some 5"
    using main [of h cs t u g m a "scenario_heap 21" 5 "blank\<lparr>cable_count := Some 3\<rparr>" k] c21
    by simp
  have absent: "cable_count (merge_into (scenario_heap 21) blank) = Some 5"
    using main [of h cs t u g m a "scenario_heap 21" 5 blank k] c21 by (simp add: blank_def)
  from scenario_trace cc mx raise lower absent show ?thesis by blast
qed

text \<open>
  C1 as stated fails: a representative whose own cable count is \<open>0\<close> keeps it when a
  candidate with 5 cables is merged into it, since \<^verbatim>\<open>existing.cable_count\<close> is then
  neither \<^verbatim>\<open>None\<close> nor truthy. The call changes \<^verbatim>\<open>merged_sources\<close> of the ground node
  and nothing else.
\<close>

theorem cable_count_zero_representative_counterexample:
  "deduplicate_candidates zero_count_heap [30, 31] 50 =
     Inr ([30],
          zero_count_heap
            (30 := (zero_count_heap 30)
                     \<lparr>merged_sources := Some [''ground_node'', ''cable_landing'']\<rparr>),
          1) \<and>
   cable_count (zero_count_heap 30) = Some 0 \<and>
   cable_count (zero_count_heap 31) = Some 5 \<and>
   \<not> is_max_count zero_count_heap [30, 31] 0"
proof -
  have "merge_into (zero_count_heap 30) (zero_count_heap 31) =
        (zero_count_heap 30)\<lparr>merged_sources := Some [''ground_node'', ''cable_landing'']\<rparr>"
    by (simp add: merge_into_def zero_count_heap_def blank_def truthy_int_def truthy_real_def)
  with deduplicate_candidates_trace [OF zero_count_trace] show ?thesis
    by (simp add: is_max_count_def) (simp add: zero_count_heap_def blank_def)
qed

text \<open>
  C2. For every store, input list and threshold \<open>t\<close>, when the call returns, any two
  candidates at different positions of its output are at great-circle distance
  (\<^verbatim>\<open>haversine_km\<close>, on the coordinates the call leaves them with) at least \<open>t\<close>.
\<close>

theorem dedup_output_pairwise_apart:
  "deduplicate_candidates h cs t = Inr (unique, h', merged_count) \<longrightarrow>
     (\<forall>i<length unique. \<forall>j<length unique. i \<noteq> j \<longrightarrow> apart h' t (unique ! i) (unique ! j))"
proof (intro impI allI)
  fix i j
  assume ret: "deduplicate_candidates h cs t = Inr (unique, h', merged_count)"
    and ij: "i < length unique" "j < length unique" "i \<noteq> j"
  from ret obtain ab where run: "dedup_trace h cs t = Inr (unique, h', merged_count, ab)"
    by (rule deduplicate_candidates_InrD)
  have fr: "\<forall>r. same_identity (h' r) (h r)"
    using dedup_trace_frame [OF run] by simp
  have far: "sorted_wrt (\<lambda>e c. \<not> near h' t c e) unique"
    using dedup_trace_far [OF run] by (simp add: near_frame [OF fr])
  show "apart h' t (unique ! i) (unique ! j)"
  proof (cases "i < j")
    case True
    with far ij have "\<not> near h' t (unique ! j) (unique ! i)"
      by (simp add: sorted_wrt_iff_nth_less)
    then show ?thesis by (simp add: apart_iff near_sym)
  next
    case False
    with ij have "j < i" by simp
    with far ij have "\<not> near h' t (unique ! i) (unique ! j)"
      by (simp add: sorted_wrt_iff_nth_less)
    then show ?thesis by (simp add: apart_iff)
  qed
qed

text \<open>
  The chain at threshold 100 km: the call returns all three candidates, and the ground
  node is at least 100 km from both cable landings.
\<close>

theorem dedup_output_pairwise_apart_witness:
  "deduplicate_candidates chain_heap [11, 10, 12] 100 = Inr ([10, 11, 12], chain_heap, 0) \<and>
   apart chain_heap 100 10 11 \<and> apart chain_heap 100 12 10"
proof -
  have run: "deduplicate_candidates chain_heap [11, 10, 12] 100 = Inr ([10, 11, 12], chain_heap, 0)"
    by (rule deduplicate_candidates_trace [OF chain_trace_small])
  with dedup_output_pairwise_apart [of chain_heap "[11, 10, 12]" 100 "[10, 11, 12]" chain_heap 0]
  have all: "\<forall>i<length [10, 11, 12 :: nat]. \<forall>j<length [10, 11, 12 :: nat]. i \<noteq> j \<longrightarrow>
      apart chain_heap 100 ([10, 11, 12] ! i) ([10, 11, 12] ! j)"
    by blast
  have "apart chain_heap 100 ([10, 11, 12] ! 0) ([10, 11, 12] ! 1)"
    "apart chain_heap 100 ([10, 11, 12] ! 2) ([10, 11, 12] ! 0)"
    using all [rule_format, of 0 1] all [rule_format, of 2 0] by simp_all
  with run show ?thesis by simp
qed

text \<open>
  C3. A ground-node record and a cable-landing record (neither merged before) whose
  distance is below the threshold, in either input order, give one output candidate:
  the ground node, with \<^verbatim>\<open>merged_sources\<close> listing both source tags in order. In the
  scenario of the specification, at threshold 50 km, the output has source
  \<^verbatim>\<open>ground_node\<close>, \<^verbatim>\<open>cable_count\<close> 5 and \<^verbatim>\<open>merged_sources\<close>
  \<^verbatim>\<open>["ground_node", "cable_landing"]\<close>.
\<close>

theorem ground_node_absorbs_cable_landing:
  "(source (h g) = ''ground_node'' \<and> source (h c) = ''cable_landing'' \<and>
    merged_sources (h g) = None \<and> closer h t g c \<and> (cs = [g, c] \<or> cs = [c, g]) \<longrightarrow>
      (\<exists>h'. deduplicate_candidates h cs t = Inr ([g], h', 1) \<and>
            source (h' g) = ''ground_node'' \<and>
            merged_sources (h' g) = Some [''ground_node'', ''cable_landing''])) \<and>
   (\<exists>h'. deduplicate_candidates scenario_heap [20, 21] 50 = Inr ([20], h', 1) \<and>
         source (h' 20) = ''ground_node'' \<and> cable_count (h' 20) = Some 5 \<and>
         merged_sources (h' 20) = Some [''ground_node'', ''cable_landing''])"
proof (intro conjI impI)
  assume hyp: "source (h g) = ''ground_node'' \<and> source (h c) = ''cable_landing'' \<and>
    merged_sources (h g) = None \<and> closer h t g c \<and> (cs = [g, c] \<or> cs = [c, g])"
  then have "near h t c g"
    by (simp add: closer_iff near_sym)
  with hyp have "dedup_trace h cs t =
      Inr ([g], h(g := merge_into (h g) (h c)), 1, (\<lambda>r. [])(g := [c]))"
    by (intro pair_trace) simp_all
  from deduplicate_candidates_trace [OF this] hyp
  show "\<exists>h'. deduplicate_candidates h cs t = Inr ([g], h', 1) \<and>
            source (h' g) = ''ground_node'' \<and>
            merged_sources (h' g) = Some [''ground_node'', ''cable_landing'']"
    by (intro exI [of _ "h(g := merge_into (h g) (h c))"]) (simp add: merge_into_sources)
next
  have "dedup_trace scenario_heap [20, 21] 50 =
      Inr ([20], scenario_heap(20 := merge_into (scenario_heap 20) (scenario_heap 21)), 1,
           (\<lambda>r. [])(20 := [21]))"
    by (intro pair_trace scenario_near) (simp_all add: scenario_heap_def blank_def)
  from deduplicate_candidates_trace [OF this]
  show "\<exists>h'. deduplicate_candidates scenario_heap [20, 21] 50 = Inr ([20], h', 1) \<and>
         source (h' 20) = ''ground_node'' \<and> cable_count (h' 20) = Some 5 \<and>
         merged_sources (h' 20) = Some [''ground_node'', ''cable_landing'']"
    by (intro exI [of _ "scenario_heap(20 := merge_into (scenario_heap 20) (scenario_heap 21))"])
      (simp add: scenario_heap_def blank_def merge_into_def truthy_int_def truthy_real_def)
qed

text \<open>The scenario with the cable landing first in the input.\<close>

theorem ground_node_absorbs_cable_landing_witness:
  "\<exists>h'. deduplicate_candidates scenario_heap [21, 20] 50 = Inr ([20], h', 1) \<and>
        source (h' 20) = ''ground_node'' \<and>
        merged_sources (h' 20) = Some [''ground_node'', ''cable_landing'']"
proof -
  have "source (scenario_heap 20) = ''ground_node'' \<and>
        source (scenario_heap 21) = ''cable_landing'' \<and>
        merged_sources (scenario_heap 20) = None \<and> closer scenario_heap 50 20 21 \<and>
        ([21, 20] = [20, 21] \<or> [21, 20] = [21, 20 :: nat])"
    using scenario_near
    by (simp add: closer_iff near_sym [of _ _ 20 21]) (simp add: scenario_heap_def blank_def)
  with ground_node_absorbs_cable_landing [of scenario_heap 20 21 50 "[21, 20]"]
  show ?thesis by blast
qed

text \<open>
  C4 fails on the code. Three ground nodes at one place, in scan order without a
  weather score (the representative, object 40), with the score \<open>0.0\<close> (object 41)
  and with the score \<open>0.5\<close> (object 42): the first record that provides a score is
  object 41, and the representative ends with \<open>0.5\<close>, since the test
  \<^verbatim>\<open>candidate.weather_score\<close> takes the score \<open>0.0\<close> for a missing one.
\<close>

theorem weather_score_zero_skipped:
  "deduplicate_candidates zero_score_heap [40, 41, 42] 50 =
     Inr ([40],
          zero_score_heap
            (40 := (zero_score_heap 40)
                     \<lparr>weather_score := Some (1 / 2),
                      merged_sources := Some [''ground_node'', ''ground_node'', ''ground_node'']\<rparr>),
          2) \<and>
   weather_score (zero_score_heap 40) = None \<and>
   weather_score (zero_score_heap 41) = Some 0 \<and>
   weather_score (zero_score_heap 42) = Some (1 / 2)"
proof -
  have "merge_into (merge_into (zero_score_heap 40) (zero_score_heap 41)) (zero_score_heap 42) =
        (zero_score_heap 40)
          \<lparr>weather_score := Some (1 / 2),
           merged_sources := Some [''ground_node'', ''ground_node'', ''ground_node'']\<rparr>"
    by (simp add: merge_into_def zero_score_heap_def blank_def truthy_int_def truthy_real_def)
  with deduplicate_candidates_trace [OF zero_score_trace] show ?thesis
    by (simp add: zero_score_values)
qed

text \<open>
  C5. \<^verbatim>\<open>deduplicate_candidates\<close> is idempotent in the count: when a first call
  returns, a second call, on its output and the store it left, with the same threshold,
  returns too, merges nothing (\<^verbatim>\<open>merged_count\<close> is \<open>0\<close> and the store stays as it was)
  and gives a list of the same length with the same elements.
\<close>

theorem dedup_idempotent_count:
  "deduplicate_candidates h cs t = Inr (unique, h', merged_count) \<longrightarrow>
     (\<exists>unique'. deduplicate_candidates h' unique t = Inr (unique', h', 0) \<and>
                length unique' = length unique \<and> set unique' = set unique)"
proof
  assume "deduplicate_candidates h cs t = Inr (unique, h', merged_count)"
  then obtain ab where run: "dedup_trace h cs t = Inr (unique, h', merged_count, ab)"
    by (rule deduplicate_candidates_InrD)
  from deduplicate_candidates_trace [OF dedup_trace_second_run [OF run]]
  show "\<exists>unique'. deduplicate_candidates h' unique t = Inr (unique', h', 0) \<and>
                length unique' = length unique \<and> set unique' = set unique"
    by auto
qed

text \<open>
  The chain at threshold 12742 km: the first call merges both cable landings into the
  ground node, and the second call returns the ground node and merges nothing.
\<close>

theorem dedup_idempotent_count_witness:
  "deduplicate_candidates chain_heap [11, 10, 12] 12742 =
     Inr ([10],
          chain_heap(10 := merge_into (merge_into (chain_heap 10) (chain_heap 11)) (chain_heap 12)),
          2) \<and>
   deduplicate_candidates
     (chain_heap(10 := merge_into (merge_into (chain_heap 10) (chain_heap 11)) (chain_heap 12)))
     [10] 12742 =
     Inr ([10],
          chain_heap(10 := merge_into (merge_into (chain_heap 10) (chain_heap 11)) (chain_heap 12)),
          0)"
proof -
  let ?h' = "chain_heap(10 := merge_into (merge_into (chain_heap 10) (chain_heap 11)) (chain_heap 12))"
  have run: "deduplicate_candidates chain_heap [11, 10, 12] 12742 = Inr ([10], ?h', 2)"
    by (rule deduplicate_candidates_trace [OF chain_trace])
  with dedup_idempotent_count [of chain_heap "[11, 10, 12]" 12742 "[10]" ?h' 2]
  obtain u' where second: "deduplicate_candidates ?h' [10] 12742 = Inr (u', ?h', 0)"
    and len: "length u' = length [10 :: nat]" and st: "set u' = set [10 :: nat]"
    by blast
  from len st have "u' = [10]"
    by (cases u') auto
  with run second show ?thesis by simp
qed

text \<open>
  C6. For a longitude in \<open>[-180, 180)\<close> exactly one declared zone has it in its
  half-open interval, and \<^verbatim>\<open>assign_zone\<close> returns that zone's name: \<^verbatim>\<open>AMERICAS\<close> on
  \<open>[-180, -30)\<close>, \<^verbatim>\<open>EMEA\<close> on \<open>[-30, 60)\<close>, \<^verbatim>\<open>APAC\<close> on \<open>[60, 180)\<close>. A longitude in
  no declared interval, such as \<open>180\<close>, gets the fallback \<^verbatim>\<open>APAC\<close>, and
  \<^verbatim>\<open>assign_zone(-30.0)\<close> is \<^verbatim>\<open>EMEA\<close>.
\<close>

theorem assign_zone_partition:
  "(-180 \<le> lon \<and> lon < 180 \<longrightarrow>
      (\<exists>!z. z \<in> set ZONES \<and> in_zone lon z) \<and>
      (\<forall>z\<in>set ZONES. in_zone lon z \<longrightarrow> assign_zone lon = fst z)) \<and>
   ((\<forall>z\<in>set ZONES. \<not> in_zone lon z) \<longrightarrow> assign_zone lon = ''APAC'') \<and>
   (-180 \<le> lon \<and> lon < -30 \<longrightarrow> assign_zone lon = ''AMERICAS'') \<and>
   (-30 \<le> lon \<and> lon < 60 \<longrightarrow> assign_zone lon = ''EMEA'') \<and>
   (60 \<le> lon \<and> lon < 180 \<longrightarrow> assign_zone lon = ''APAC'') \<and>
   assign_zone 180 = ''APAC'' \<and> assign_zone (-30) = ''EMEA''"
proof (intro conjI impI ballI)
  show "\<exists>!z. z \<in> set ZONES \<and> in_zone lon z" if "-180 \<le> lon \<and> lon < 180"
    using that by (simp add: in_zone_unique)
  show "assign_zone lon = fst z" if "z \<in> set ZONES" "in_zone lon z" for z
    using that by (rule assign_zone_pick)
  show "assign_zone lon = ''APAC''" if "\<forall>z\<in>set ZONES. \<not> in_zone lon z"
    using that unfolding assign_zone_def by (rule assign_zone_loop_fallback)
qed (simp_all add: assign_zone_cases)

text \<open>The zones of the longitudes \<open>0\<close>, \<open>-100\<close>, \<open>100\<close> and \<open>200\<close>.\<close>

theorem assign_zone_partition_witness:
  "(\<exists>!z. z \<in> set ZONES \<and> in_zone 0 z) \<and> assign_zone 0 = ''EMEA'' \<and>
   assign_zone (-100) = ''AMERICAS'' \<and> assign_zone 100 = ''APAC'' \<and>
   assign_zone 200 = ''APAC''"
proof -
  have emea: "ZONES ! 1 \<in> set ZONES" "in_zone 0 (ZONES ! 1)" "fst (ZONES ! 1) = ''EMEA''"
    by (simp_all add: ZONES_def in_zone_def)
  have far: "\<forall>z\<in>set ZONES. \<not> in_zone 200 z"
    by (simp add: ZONES_def in_zone_def)
  have r0: "-180 \<le> (0::real) \<and> (0::real) < 180"
    and r1: "-180 \<le> (-100::real) \<and> (-100::real) < -30"
    and r2: "60 \<le> (100::real) \<and> (100::real) < 180"
    by simp_all
  have u: "\<exists>!z. z \<in> set ZONES \<and> in_zone 0 z"
    using assign_zone_partition [of 0] r0 by blast
  have "\<forall>z\<in>set ZONES. in_zone 0 z \<longrightarrow> assign_zone 0 = fst z"
    using assign_zone_partition [of 0] r0 by blast
  with emea(1,2) have "assign_zone 0 = fst (ZONES ! 1)"
    by blast
  then have e: "assign_zone 0 = ''EMEA''"
    by (simp only: emea(3))
  have a: "assign_zone (-100) = ''AMERICAS''"
    using assign_zone_partition [of "-100"] r1 by blast
  have p: "assign_zone 100 = ''APAC''"
    using assign_zone_partition [of 100] r2 by blast
  have f: "assign_zone 200 = ''APAC''"
    using assign_zone_partition [of 200] far by blast
  show ?thesis using u e a p f by blast
qed




text \<open>
  C8. There are three candidates and a threshold such that \<open>A\<close> and \<open>C\<close> are each
  within the threshold of \<open>B\<close> and not of each other, \<open>B\<close> comes before both in the
  importance order, and the call returns \<open>B\<close> alone, with \<open>A\<close> and \<open>C\<close> both merged
  into it: the chain, at threshold 12742 km.
\<close>

theorem chain_merges_into_first_representative:
  "closer chain_heap 12742 11 10 \<and> closer chain_heap 12742 12 10 \<and>
   apart chain_heap 12742 11 12 \<and> apart chain_heap 12742 12 11 \<and>
   importance (chain_heap 10) < importance (chain_heap 11) \<and>
   importance (chain_heap 10) < importance (chain_heap 12) \<and>
   (\<exists>h' absorbed.
      dedup_trace chain_heap [11, 10, 12] 12742 = Inr ([10], h', 2, absorbed) \<and>
      deduplicate_candidates chain_heap [11, 10, 12] 12742 = Inr ([10], h', 2) \<and>
      absorbed 10 = [11, 12] \<and>
      merged_sources (h' 10) = Some [''ground_node'', ''cable_landing'', ''cable_landing''])"
proof -
  have "merged_sources (merge_into (merge_into (chain_heap 10) (chain_heap 11)) (chain_heap 12))
        = Some [''ground_node'', ''cable_landing'', ''cable_landing'']"
    by (simp add: chain_heap_def blank_def merge_into_def truthy_int_def truthy_real_def)
  moreover have "importance (chain_heap 10) < importance (chain_heap 11)"
    "importance (chain_heap 10) < importance (chain_heap 12)"
    by (simp_all add: chain_heap_def blank_def importance_def)
  ultimately show ?thesis
    using chain_trace deduplicate_candidates_trace [OF chain_trace]
    by (simp add: closer_iff apart_iff chain_near)
qed

text \<open>
  C9. \<^verbatim>\<open>deduplicate_candidates\<close> creates no candidate and assigns only to the
  fields \<^verbatim>\<open>cable_count\<close>, \<^verbatim>\<open>cables\<close>, \<^verbatim>\<open>weather_score\<close> and \<^verbatim>\<open>merged_sources\<close>:
  for every store, input list and threshold, when the call returns, every element of
  the output is an element of the input, and every object of the store keeps its
  \<^verbatim>\<open>id\<close>, \<^verbatim>\<open>name\<close>, \<^verbatim>\<open>latitude\<close>, \<^verbatim>\<open>longitude\<close>, \<^verbatim>\<open>zone\<close>, \<^verbatim>\<open>source\<close>, \<^verbatim>\<open>tier\<close> and
  \<^verbatim>\<open>demand_gbps\<close> (so the zone is never recomputed).
\<close>

theorem dedup_frame:
  "deduplicate_candidates h cs t = Inr (unique, h', merged_count) \<longrightarrow>
     set unique \<subseteq> set cs \<and> (\<forall>r. same_identity (h' r) (h r))"
proof
  assume "deduplicate_candidates h cs t = Inr (unique, h', merged_count)"
  then obtain ab where run: "dedup_trace h cs t = Inr (unique, h', merged_count, ab)"
    by (rule deduplicate_candidates_InrD)
  from dedup_trace_frame [OF run]
  show "set unique \<subseteq> set cs \<and> (\<forall>r. same_identity (h' r) (h r))" .
qed

text \<open>
  The scenario of the specification with the cable landing first: the output is the
  ground node, an element of the input, and both objects keep those eight fields.
\<close>

theorem dedup_frame_witness:
  "deduplicate_candidates scenario_heap [21, 20] 50 =
     Inr ([20], scenario_heap(20 := merge_into (scenario_heap 20) (scenario_heap 21)), 1) \<and>
   set [20 :: nat] \<subseteq> set [21, 20] \<and>
   same_identity (merge_into (scenario_heap 20) (scenario_heap 21)) (scenario_heap 20) \<and>
   same_identity (scenario_heap 21) (scenario_heap 21)"
proof -
  let ?h' = "scenario_heap(20 := merge_into (scenario_heap 20) (scenario_heap 21))"
  have "dedup_trace scenario_heap [21, 20] 50 = Inr ([20], ?h', 1, (\<lambda>r. [])(20 := [21]))"
    by (intro pair_trace scenario_near) (simp_all add: scenario_heap_def blank_def)
  then have run: "deduplicate_candidates scenario_heap [21, 20] 50 = Inr ([20], ?h', 1)"
    by (rule deduplicate_candidates_trace)
  with dedup_frame [of scenario_heap "[21, 20]" 50 "[20]" ?h' 1]
  have sub: "set [20 :: nat] \<subseteq> set [21, 20]" and fr: "\<forall>r. same_identity (?h' r) (scenario_heap r)"
    by blast+
  from fr [rule_format, of 20] fr [rule_format, of 21] run sub show ?thesis
    by simp
qed

text \<open>
  C10, as the code has it. Every ground-node candidate is created with \<^verbatim>\<open>cable_count\<close>
  and \<^verbatim>\<open>cables\<close> absent. The candidates of the landing points that have coordinates
  carry, in order, what \<^verbatim>\<open>point.get("cable_count", 0)\<close> and \<^verbatim>\<open>point.get("cables", [])\<close>
  return: \<open>0\<close> and the empty list when the record omits the key, the record's value
  when it has one, and \<^verbatim>\<open>None\<close> when the record holds an explicit \<^verbatim>\<open>null\<close>.
\<close>

theorem loaders_cable_fields:
  "(\<forall>c\<in>set (load_ground_nodes nodes). cable_count c = None \<and> cables c = None) \<and>
   map cable_count (load_cable_landings points) =
     map (\<lambda>p. case lp_cable_count p of Absent \<Rightarrow> Some 0 | Null \<Rightarrow> None | Val n \<Rightarrow> Some n)
       (filter has_coordinates points) \<and>
   map cables (load_cable_landings points) =
     map (\<lambda>p. case lp_cables p of Absent \<Rightarrow> Some [] | Null \<Rightarrow> None | Val cs \<Rightarrow> Some cs)
       (filter has_coordinates points)"
proof (intro conjI)
  show "\<forall>c\<in>set (load_ground_nodes nodes). cable_count c = None \<and> cables c = None"
    unfolding load_ground_nodes_def by (rule load_ground_nodes_loop_no_cables) simp
  show "map cable_count (load_cable_landings points) =
     map (\<lambda>p. case lp_cable_count p of Absent \<Rightarrow> Some 0 | Null \<Rightarrow> None | Val n \<Rightarrow> Some n)
       (filter has_coordinates points)"
    by (simp add: load_cable_landings_def get_default_def
        load_cable_landings_loop_map [where g = "\<lambda>p. get_default (lp_cable_count p) 0"]
        landing_candidate_cables)
  show "map cables (load_cable_landings points) =
     map (\<lambda>p. case lp_cables p of Absent \<Rightarrow> Some [] | Null \<Rightarrow> None | Val cs \<Rightarrow> Some cs)
       (filter has_coordinates points)"
    by (simp add: load_cable_landings_def get_default_def
        load_cable_landings_loop_map [where g = "\<lambda>p. get_default (lp_cables p) []"]
        landing_candidate_cables)
qed

text \<open>A ground node and a landing point that give coordinates only.\<close>

theorem loaders_cable_fields_witness:
  "(\<exists>c. load_ground_nodes [bare_node] = [c] \<and> cable_count c = None \<and> cables c = None) \<and>
   map cable_count (load_cable_landings [bare_landing]) = [Some 0] \<and>
   map cables (load_cable_landings [bare_landing]) = [Some []]"
proof -
  note main = loaders_cable_fields [of "[bare_node]" "[bare_landing]"]
  have kept: "filter has_coordinates [bare_landing] = [bare_landing]"
    by (simp add: has_coordinates_def bare_landing_def get_def)
  have fields: "lp_cable_count bare_landing = Absent" "lp_cables bare_landing = Absent"
    by (simp_all add: bare_landing_def)
  obtain c where c: "load_ground_nodes [bare_node] = [c]"
    by (simp add: load_ground_nodes_def bare_node_def get_def)
  with main have "cable_count c = None \<and> cables c = None"
    by simp
  moreover from main
  have "map cable_count (load_cable_landings [bare_landing]) = [Some 0]"
    "map cables (load_cable_landings [bare_landing]) = [Some []]"
    unfolding kept by (simp_all add: fields)
  ultimately show ?thesis using c by blast
qed

text \<open>
  C10 as stated fails: a landing point whose \<^verbatim>\<open>cable_count\<close> (or \<^verbatim>\<open>cables\<close>) is
  \<^verbatim>\<open>null\<close> gives a candidate without one.
\<close>

theorem landing_null_cable_count_counterexample:
  "map cable_count (load_cable_landings [bare_landing\<lparr>lp_cable_count := Null\<rparr>]) = [None] \<and>
   map cables (load_cable_landings [bare_landing\<lparr>lp_cables := Null\<rparr>]) = [None]"
  by (simp add: load_cable_landings_def bare_landing_def get_def get_default_def
      landing_candidate_cables)

end
